theory Spec2Isabelle
  imports Main "HOL-Library.Word"
begin

unbundle bit_operations_syntax

section \<open>Bytes, Python values and the exceptions of the two programs\<close>

text \<open>
  A byte on the wire is an \<open>8 word\<close>; a Python integer is an \<open>int\<close>; a Python
  \<open>bytes\<close> object is a list of bytes; a Python \<open>str\<close> is the list of its code points.
\<close>

type_synonym byte = "8 word"
type_synonym bytes = "byte list"
type_synonym py_str = "nat list"

datatype exn = StructError | UnicodeDecodeError | SocketError | ZeroDivisionError

definition str_lit :: "string \<Rightarrow> py_str" where
  "str_lit s = map of_char s"

definition ascii_bytes :: "string \<Rightarrow> bytes" where
  \<comment> \<open>\<open>str.encode()\<close> of an ASCII literal of the source\<close>
  "ascii_bytes s = map of_char s"

subsection \<open>Protocol constants (both files)\<close>

definition MAGIC_COOKIE :: int where "MAGIC_COOKIE = 0xabcddcba"
definition UDP_PORT :: int where "UDP_PORT = 13122"
definition OFFER_TYPE :: int where "OFFER_TYPE = 0x2"
definition REQUEST_TYPE :: int where "REQUEST_TYPE = 0x3"
definition PAYLOAD_TYPE :: int where "PAYLOAD_TYPE = 0x4"

definition ljust :: "nat \<Rightarrow> string \<Rightarrow> string" where
  \<comment> \<open>\<open>str.ljust(n)\<close>: pad with spaces on the right up to \<open>n\<close> characters\<close>
  "ljust n s = s @ replicate (n - length s) CHR '' ''"

definition SERVER_NAME :: string where
  "SERVER_NAME = take 32 (ljust 32 ''Nadav's Rocking Casino'')"

definition TEAM_NAME :: string where
  "TEAM_NAME = take 32 (ljust 32 ''Diagonal Shooters'')"

section \<open>The \<open>struct\<close> formats used on the wire\<close>

text \<open>
  \<open>struct.pack\<close> raises \<open>struct.error\<close> when an integer does not fit its field and
  pads or truncates an \<open>s\<close> field to its width; \<open>struct.unpack\<close> raises when the buffer
  does not have exactly the size of the format. All formats are big-endian (\<open>>\<close>).
\<close>

definition fits_B :: "int \<Rightarrow> bool" where "fits_B x = (0 \<le> x \<and> x \<le> 255)"
definition fits_H :: "int \<Rightarrow> bool" where "fits_H x = (0 \<le> x \<and> x \<le> 65535)"
definition fits_I :: "int \<Rightarrow> bool" where "fits_I x = (0 \<le> x \<and> x \<le> 4294967295)"

definition put_B :: "int \<Rightarrow> bytes" where
  "put_B x = [word_of_int x]"

definition put_H :: "int \<Rightarrow> bytes" where
  "put_H x = [word_of_int (x div 256), word_of_int x]"

definition put_I :: "int \<Rightarrow> bytes" where
  "put_I x = [word_of_int (x div 16777216), word_of_int (x div 65536),
              word_of_int (x div 256), word_of_int x]"

definition put_s :: "nat \<Rightarrow> bytes \<Rightarrow> bytes" where
  "put_s n b = take n b @ replicate (n - length b) 0"

definition get_B :: "bytes \<Rightarrow> nat \<Rightarrow> int" where
  "get_B data i = uint (data ! i)"

definition get_H :: "bytes \<Rightarrow> nat \<Rightarrow> int" where
  "get_H data i = uint (data ! i) * 256 + uint (data ! (i + 1))"

definition get_I :: "bytes \<Rightarrow> nat \<Rightarrow> int" where
  "get_I data i = uint (data ! i) * 16777216 + uint (data ! (i + 1)) * 65536
                + uint (data ! (i + 2)) * 256 + uint (data ! (i + 3))"

definition get_s :: "bytes \<Rightarrow> nat \<Rightarrow> nat \<Rightarrow> bytes" where
  "get_s data i n = take n (drop i data)"

definition pack_IBH32s :: "int \<Rightarrow> int \<Rightarrow> int \<Rightarrow> bytes \<Rightarrow> exn + bytes" where
  "pack_IBH32s c t p name =
     (if fits_I c \<and> fits_B t \<and> fits_H p
      then Inr (put_I c @ put_B t @ put_H p @ put_s 32 name)
      else Inl StructError)"

definition unpack_IBH32s :: "bytes \<Rightarrow> exn + (int \<times> int \<times> int \<times> bytes)" where
  "unpack_IBH32s data =
     (if length data = 39
      then Inr (get_I data 0, get_B data 4, get_H data 5, get_s data 7 32)
      else Inl StructError)"

definition pack_IBB32s :: "int \<Rightarrow> int \<Rightarrow> int \<Rightarrow> bytes \<Rightarrow> exn + bytes" where
  "pack_IBB32s c t n name =
     (if fits_I c \<and> fits_B t \<and> fits_B n
      then Inr (put_I c @ put_B t @ put_B n @ put_s 32 name)
      else Inl StructError)"

definition unpack_IBB32s :: "bytes \<Rightarrow> exn + (int \<times> int \<times> int \<times> bytes)" where
  "unpack_IBB32s data =
     (if length data = 38
      then Inr (get_I data 0, get_B data 4, get_B data 5, get_s data 6 32)
      else Inl StructError)"

definition pack_IB5s :: "int \<Rightarrow> int \<Rightarrow> bytes \<Rightarrow> exn + bytes" where
  "pack_IB5s c t action =
     (if fits_I c \<and> fits_B t
      then Inr (put_I c @ put_B t @ put_s 5 action)
      else Inl StructError)"

definition unpack_IB5s :: "bytes \<Rightarrow> exn + (int \<times> int \<times> bytes)" where
  "unpack_IB5s data =
     (if length data = 10
      then Inr (get_I data 0, get_B data 4, get_s data 5 5)
      else Inl StructError)"

definition pack_IBB3B :: "int \<Rightarrow> int \<Rightarrow> int \<Rightarrow> int \<Rightarrow> int \<Rightarrow> int \<Rightarrow> exn + bytes" where
  "pack_IBB3B c t r h l s =
     (if fits_I c \<and> fits_B t \<and> fits_B r \<and> fits_B h \<and> fits_B l \<and> fits_B s
      then Inr (put_I c @ put_B t @ put_B r @ put_B h @ put_B l @ put_B s)
      else Inl StructError)"

definition unpack_IBB3B :: "bytes \<Rightarrow> exn + (int \<times> int \<times> int \<times> int \<times> int \<times> int)" where
  "unpack_IBB3B data =
     (if length data = 9
      then Inr (get_I data 0, get_B data 4, get_B data 5, get_B data 6, get_B data 7,
                get_B data 8)
      else Inl StructError)"

section \<open>Card values\<close>

definition card_value :: "int \<Rightarrow> int" where
  \<comment> \<open>\<open>deal_card\<close>, lines 48-50 of dealer\_server.py\<close>
  "card_value rank = (if rank = 1 then 11 else if rank \<ge> 11 then 10 else rank)"

fun calculate_points_from :: "int \<Rightarrow> (int \<times> int) list \<Rightarrow> int" where
  \<comment> \<open>the loop of \<open>calculate_points\<close> (player\_client.py); \<open>tot\<close> is its variable \<open>total\<close>\<close>
  "calculate_points_from tot [] = tot"
| "calculate_points_from tot ((r, _) # hand) =
     calculate_points_from
       (if r = 1 then tot + 11 else if r \<ge> 11 then tot + 10 else tot + r) hand"

definition calculate_points :: "(int \<times> int) list \<Rightarrow> int" where
  "calculate_points hand = calculate_points_from 0 hand"

section \<open>Text decoding of the action field\<close>

text \<open>
  \<open>bytes.decode()\<close> is Python's strict UTF-8 decoder: it raises \<open>UnicodeDecodeError\<close> on
  a malformed, overlong or surrogate sequence. \<open>utf8_points\<close> returns the code points, or
  \<open>None\<close> where Python raises.
\<close>

definition is_cont :: "nat \<Rightarrow> bool" where
  "is_cont b = (128 \<le> b \<and> b \<le> 191)"

definition second_ok :: "nat \<Rightarrow> nat \<Rightarrow> bool" where
  "second_ok b0 b1 =
     (if b0 = 224 then 160 \<le> b1 \<and> b1 \<le> 191
      else if b0 = 237 then 128 \<le> b1 \<and> b1 \<le> 159
      else if b0 = 240 then 144 \<le> b1 \<and> b1 \<le> 191
      else if b0 = 244 then 128 \<le> b1 \<and> b1 \<le> 143
      else is_cont b1)"

fun utf8_points :: "nat list \<Rightarrow> py_str option" where
  "utf8_points [] = Some []"
| "utf8_points (b0 # bs) =
     (if b0 < 128 then map_option ((#) b0) (utf8_points bs)
      else if 194 \<le> b0 \<and> b0 \<le> 223 then
        (case bs of
           b1 # r \<Rightarrow>
             if is_cont b1
             then map_option ((#) ((b0 - 192) * 64 + (b1 - 128))) (utf8_points r)
             else None
         | _ \<Rightarrow> None)
      else if 224 \<le> b0 \<and> b0 \<le> 239 then
        (case bs of
           b1 # b2 # r \<Rightarrow>
             if second_ok b0 b1 \<and> is_cont b2
             then map_option ((#) (((b0 - 224) * 64 + (b1 - 128)) * 64 + (b2 - 128)))
                    (utf8_points r)
             else None
         | _ \<Rightarrow> None)
      else if 240 \<le> b0 \<and> b0 \<le> 244 then
        (case bs of
           b1 # b2 # b3 # r \<Rightarrow>
             if second_ok b0 b1 \<and> is_cont b2 \<and> is_cont b3
             then map_option
                    ((#) ((((b0 - 240) * 64 + (b1 - 128)) * 64 + (b2 - 128)) * 64 + (b3 - 128)))
                    (utf8_points r)
             else None
         | _ \<Rightarrow> None)
      else None)"

definition bytes_decode :: "bytes \<Rightarrow> exn + py_str" where
  "bytes_decode b =
     (case utf8_points (map unat b) of None \<Rightarrow> Inl UnicodeDecodeError | Some s \<Rightarrow> Inr s)"

definition strip_chars :: "(nat \<Rightarrow> bool) \<Rightarrow> py_str \<Rightarrow> py_str" where
  \<comment> \<open>\<open>str.strip\<close>: drop the characters of the given class at both ends\<close>
  "strip_chars p s = rev (dropWhile p (rev (dropWhile p s)))"

definition is_nul :: "nat \<Rightarrow> bool" where
  "is_nul c = (c = 0)"

definition is_space :: "nat \<Rightarrow> bool" where
  \<comment> \<open>the characters for which \<open>str.isspace\<close> holds, those \<open>strip()\<close> removes\<close>
  "is_space c =
     ((9 \<le> c \<and> c \<le> 13) \<or> (28 \<le> c \<and> c \<le> 32) \<or> c = 133 \<or> c = 160 \<or> c = 5760
      \<or> (8192 \<le> c \<and> c \<le> 8202) \<or> c = 8232 \<or> c = 8233 \<or> c = 8239 \<or> c = 8287
      \<or> c = 12288)"

section \<open>The connection, the random draws and the exits of a call\<close>

text \<open>
  The server talks to one peer through \<open>conn\<close> and draws cards with \<open>random.randint\<close>.
  Both are scripted: \<open>draws\<close> lists the (rank, suit) pairs the coming calls of
  \<open>deal_card\<close> obtain, \<open>rx\<close> lists what the coming calls of \<open>conn.recv\<close> do (return a
  buffer, empty when the peer has closed, or raise), \<open>tx\<close> collects the packets handed to
  \<open>conn.send\<close>, oldest first, and \<open>sends_left\<close> says how many more sends the
  transport accepts before \<open>send\<close> raises (\<open>None\<close>: all of them).

  A call either returns (\<open>Inr\<close>), raises, or does not return within the script: it is
  blocked in \<open>recv\<close> with nothing more to come, or it asks for a draw beyond the
  scripted ones.
\<close>

datatype recv_event = Data bytes | RecvRaises

datatype stop = Raised exn | Blocked | NoMoreDraws

record world =
  draws :: "(int \<times> int) list"
  rx :: "recv_event list"
  tx :: "bytes list"
  sends_left :: "nat option"

type_synonym 'a io = "world \<Rightarrow> (stop + 'a) \<times> world"

definition io_return :: "'a \<Rightarrow> 'a io" where
  "io_return a w = (Inr a, w)"

definition io_bind :: "'a io \<Rightarrow> ('a \<Rightarrow> 'b io) \<Rightarrow> 'b io" where
  "io_bind m f w = (case m w of (Inl e, w') \<Rightarrow> (Inl e, w') | (Inr a, w') \<Rightarrow> f a w')"

definition conn_recv :: "bytes io" where
  "conn_recv w =
     (case rx w of
        [] \<Rightarrow> (Inl Blocked, w)
      | RecvRaises # evs \<Rightarrow> (Inl (Raised SocketError), w\<lparr>rx := evs\<rparr>)
      | Data data # evs \<Rightarrow> (Inr data, w\<lparr>rx := evs\<rparr>))"

definition conn_send :: "bytes \<Rightarrow> unit io" where
  "conn_send packet w =
     (case sends_left w of
        None \<Rightarrow> (Inr (), w\<lparr>tx := tx w @ [packet]\<rparr>)
      | Some 0 \<Rightarrow> (Inl (Raised SocketError), w)
      | Some (Suc n) \<Rightarrow> (Inr (), w\<lparr>tx := tx w @ [packet], sends_left := Some n\<rparr>))"

section \<open>dealer\_server.py\<close>

definition deal_card :: "(int \<times> int \<times> int) io" where
  "deal_card w =
     (case draws w of
        [] \<Rightarrow> (Inl NoMoreDraws, w)
      | (rank, suit) # rest \<Rightarrow> (Inr (rank, suit, card_value rank), w\<lparr>draws := rest\<rparr>))"

definition send_payload :: "int \<Rightarrow> int \<Rightarrow> int \<Rightarrow> unit io" where
  "send_payload result rank suit w =
     (let rank_h = drop_bit 8 rank AND 255; rank_l = rank AND 255 in
      case pack_IBB3B MAGIC_COOKIE PAYLOAD_TYPE result rank_h rank_l suit of
        Inl e \<Rightarrow> (Inl (Raised e), w)
      | Inr packet \<Rightarrow> conn_send packet w)"

definition decision_of :: "bytes \<Rightarrow> exn + py_str" where
  \<comment> \<open>line 108: \<open>decision_bytes.decode().strip('\x00').strip()\<close>\<close>
  "decision_of decision_bytes =
     (case bytes_decode decision_bytes of
        Inl e \<Rightarrow> Inl e
      | Inr s \<Rightarrow> Inr (strip_chars is_space (strip_chars is_nul s)))"

text \<open>
  The player phase (lines 104-117): the \<open>while player_sum <= 21\<close> loop. An empty buffer
  and every decision other than \<open>Hittt\<close> leave the loop by \<open>break\<close>.
\<close>

function player_phase :: "int \<Rightarrow> int io" where
  "player_phase player_sum w =
     (if player_sum \<le> 21 then
        (case conn_recv w of
           (Inl e, w1) \<Rightarrow> (Inl e, w1)
         | (Inr data, w1) \<Rightarrow>
             if data = [] then (Inr player_sum, w1)
             else
               (case unpack_IB5s data of
                  Inl e \<Rightarrow> (Inl (Raised e), w1)
                | Inr (_, _, decision_bytes) \<Rightarrow>
                    (case decision_of decision_bytes of
                       Inl e \<Rightarrow> (Inl (Raised e), w1)
                     | Inr decision \<Rightarrow>
                         if decision = str_lit ''Hittt'' then
                           (case deal_card w1 of
                              (Inl e, w2) \<Rightarrow> (Inl e, w2)
                            | (Inr (r, s, v), w2) \<Rightarrow>
                                (case send_payload 0 r s w2 of
                                   (Inl e, w3) \<Rightarrow> (Inl e, w3)
                                 | (Inr _, w3) \<Rightarrow> player_phase (player_sum + v) w3))
                         else (Inr player_sum, w1))))
      else (Inr player_sum, w))"
  by pat_completeness auto
termination
  by (relation "measure (\<lambda>(player_sum, w). length (rx w))")
     (auto simp: conn_recv_def deal_card_def send_payload_def conn_send_def Let_def
           split: list.splits recv_event.splits option.splits nat.splits sum.splits)

text \<open>The dealer's draws (lines 124-128): the \<open>while dealer_sum < 17\<close> loop.\<close>

function dealer_loop :: "int \<Rightarrow> int io" where
  "dealer_loop dealer_sum w =
     (if dealer_sum < 17 then
        (case deal_card w of
           (Inl e, w1) \<Rightarrow> (Inl e, w1)
         | (Inr (r, s, v), w1) \<Rightarrow>
             (case send_payload 0 r s w1 of
                (Inl e, w2) \<Rightarrow> (Inl e, w2)
              | (Inr _, w2) \<Rightarrow> dealer_loop (dealer_sum + v) w2))
      else (Inr dealer_sum, w))"
  by pat_completeness auto
termination
  by (relation "measure (\<lambda>(dealer_sum, w). length (draws w))")
     (auto simp: deal_card_def send_payload_def conn_send_def Let_def
           split: list.splits option.splits nat.splits sum.splits)

definition dealer_phase :: "int \<Rightarrow> int \<Rightarrow> int io" where
  \<comment> \<open>lines 123-129\<close>
  "dealer_phase player_sum dealer_sum =
     (if player_sum \<le> 21 then dealer_loop dealer_sum else io_return dealer_sum)"

definition decide_outcome :: "int \<Rightarrow> int \<Rightarrow> int" where
  \<comment> \<open>lines 132-146\<close>
  "decide_outcome player_sum dealer_sum =
     (if player_sum > 21 then 2
      else if dealer_sum > 21 then 3
      else if player_sum > dealer_sum then 3
      else if dealer_sum > player_sum then 2
      else 1)"

definition initial_deal :: "(int \<times> int \<times> int \<times> int) io" where
  \<comment> \<open>lines 91-101; returns \<open>player_sum\<close>, \<open>dealer_sum\<close> and the dealer's hidden card\<close>
  "initial_deal =
     io_bind deal_card (\<lambda>(p_c1_r, p_c1_s, p_c1_v).
     io_bind deal_card (\<lambda>(p_c2_r, p_c2_s, p_c2_v).
     io_bind deal_card (\<lambda>(d_c1_r, d_c1_s, d_c1_v).
     io_bind deal_card (\<lambda>(d_c2_r, d_c2_s, d_c2_v).
     io_bind (send_payload 0 p_c1_r p_c1_s) (\<lambda>_.
     io_bind (send_payload 0 p_c2_r p_c2_s) (\<lambda>_.
     io_bind (send_payload 0 d_c1_r d_c1_s) (\<lambda>_.
     io_return (p_c1_v + p_c2_v, d_c1_v + d_c2_v, d_c2_r, d_c2_s))))))))"

definition final_sums :: "(int \<times> int) io" where
  \<comment> \<open>lines 90-129: everything before the outcome is decided\<close>
  "final_sums =
     io_bind initial_deal (\<lambda>(player_sum, dealer_sum, d_c2_r, d_c2_s).
     io_bind (player_phase player_sum) (\<lambda>player_sum.
     io_bind (send_payload 0 d_c2_r d_c2_s) (\<lambda>_.
     io_bind (dealer_phase player_sum dealer_sum) (\<lambda>dealer_sum.
     io_return (player_sum, dealer_sum)))))"

definition play_round :: "int io" where
  "play_round =
     io_bind final_sums (\<lambda>(player_sum, dealer_sum).
     let result = decide_outcome player_sum dealer_sum in
     io_bind (send_payload result 0 0) (\<lambda>_.
     io_return result))"

subsection \<open>Statistics and the session\<close>

record stats =
  total_wins :: int
  total_losses :: int
  total_ties :: int

definition init_stats :: stats where
  \<comment> \<open>\<open>__init__\<close>, lines 25-27\<close>
  "init_stats = \<lparr>total_wins = 0, total_losses = 0, total_ties = 0\<rparr>"

definition count_result :: "int \<Rightarrow> stats \<Rightarrow> stats" where
  \<comment> \<open>lines 56-58\<close>
  "count_result result st =
     (if result = 3 then st\<lparr>total_losses := total_losses st + 1\<rparr>
      else if result = 2 then st\<lparr>total_wins := total_wins st + 1\<rparr>
      else st\<lparr>total_ties := total_ties st + 1\<rparr>)"

definition total_games :: "stats \<Rightarrow> int" where
  \<comment> \<open>line 60\<close>
  "total_games st = total_wins st + total_losses st + total_ties st"

definition update_global_stats :: "int \<Rightarrow> stats \<Rightarrow> (exn + unit) \<times> stats" where
  \<comment> \<open>the body under \<open>stats_lock\<close>; the division of line 61 raises on a zero divisor\<close>
  "update_global_stats result st =
     (let st' = count_result result st in
      if total_games st' = 0 then (Inl ZeroDivisionError, st') else (Inr (), st'))"

definition request_of :: "bytes \<Rightarrow> (int \<times> bytes) option" where
  \<comment> \<open>lines 68-71: \<open>None\<close> where \<open>handle_client\<close> returns at once\<close>
  "request_of data =
     (if data = [] \<or> length data < 38 then None
      else
        (case unpack_IBB32s (take 38 data) of
           Inl e \<Rightarrow> None
         | Inr (cookie, msg_type, rounds, team_name) \<Rightarrow>
             if cookie \<noteq> MAGIC_COOKIE \<or> msg_type \<noteq> REQUEST_TYPE then None
             else Some (rounds, team_name)))"

fun play_rounds :: "nat \<Rightarrow> world \<Rightarrow> stats \<Rightarrow> (stop + unit) \<times> world \<times> stats" where
  \<comment> \<open>the \<open>for r_idx in range(rounds)\<close> loop, lines 77-80\<close>
  "play_rounds 0 w st = (Inr (), w, st)"
| "play_rounds (Suc n) w st =
     (case play_round w of
        (Inl e, w') \<Rightarrow> (Inl e, w', st)
      | (Inr result, w') \<Rightarrow>
          (case update_global_stats result st of
             (Inl e, st') \<Rightarrow> (Inl (Raised e), w', st')
           | (Inr _, st') \<Rightarrow> play_rounds n w' st'))"

datatype session_end = Finished | Dropped | Failed exn

definition handle_client :: "world \<Rightarrow> stats \<Rightarrow> (stop + session_end) \<times> world \<times> stats" where
  \<comment> \<open>an exception raised in the \<open>try\<close> block is caught at line 83 and ends the session\<close>
  "handle_client w st =
     (case conn_recv w of
        (Inl (Raised e), w1) \<Rightarrow> (Inr (Failed e), w1, st)
      | (Inl s, w1) \<Rightarrow> (Inl s, w1, st)
      | (Inr data, w1) \<Rightarrow>
          (case request_of data of
             None \<Rightarrow> (Inr Dropped, w1, st)
           | Some (rounds, team_name) \<Rightarrow>
               (case play_rounds (nat rounds) w1 st of
                  (Inl (Raised e), w2, st') \<Rightarrow> (Inr (Failed e), w2, st')
                | (Inl s, w2, st') \<Rightarrow> (Inl s, w2, st')
                | (Inr _, w2, st') \<Rightarrow> (Inr Finished, w2, st'))))"

section \<open>player\_client.py\<close>

definition offer_of :: "bytes \<Rightarrow> (int \<times> bytes) option" where
  \<comment> \<open>\<open>start_client\<close>, lines 40-43: \<open>None\<close> where the loop \<open>continue\<close>s\<close>
  "offer_of data =
     (if length data < 39 then None
      else
        (case unpack_IBH32s (take 39 data) of
           Inl e \<Rightarrow> None
         | Inr (cookie, msg_type, tcp_port, server_name) \<Rightarrow>
             if cookie \<noteq> MAGIC_COOKIE \<or> msg_type \<noteq> 2 then None
             else Some (tcp_port, server_name)))"

definition safe_recv :: "recv_event \<Rightarrow> int \<times> int \<times> int" where
  \<comment> \<open>the argument is what \<open>sock.recv(9)\<close> does; every exception ends in \<open>return 0, 0, 0\<close>\<close>
  "safe_recv ev =
     (case ev of
        RecvRaises \<Rightarrow> (0, 0, 0)
      | Data data \<Rightarrow>
          if length data < 9 then (0, 0, 0)
          else
            (case unpack_IBB3B data of
               Inl e \<Rightarrow> (0, 0, 0)
             | Inr (cookie, msg_type, res, r_h, r_l, suit) \<Rightarrow>
                 if cookie \<noteq> MAGIC_COOKIE then (0, 0, 0)
                 else (res, push_bit 8 r_h OR r_l, suit)))"

definition decision_for :: "string \<Rightarrow> string" where
  \<comment> \<open>line 118\<close>
  "decision_for choice = (if choice = ''h'' then ''Hittt'' else ''Stand'')"

definition decision_packet :: "string \<Rightarrow> exn + bytes" where
  \<comment> \<open>line 119: the argument of \<open>sock.send\<close>\<close>
  "decision_packet decision =
     pack_IB5s MAGIC_COOKIE 4 (ascii_bytes (ljust 5 decision))"

definition request_packet :: "int \<Rightarrow> bytes \<Rightarrow> exn + bytes" where
  \<comment> \<open>line 66, for any team name\<close>
  "request_packet num_rounds team_name = pack_IBB32s MAGIC_COOKIE 3 num_rounds team_name"

definition offer_packet :: "int \<Rightarrow> bytes \<Rightarrow> exn + bytes" where
  \<comment> \<open>\<open>broadcast_offers\<close> (dealer\_server.py), line 34, for any server name\<close>
  "offer_packet tcp_port server_name =
     pack_IBH32s MAGIC_COOKIE OFFER_TYPE tcp_port server_name"

section \<open>Notions used to state the properties\<close>

text \<open>
  The packet \<open>send_payload\<close> hands to \<open>conn.send\<close>, the packet that carries a card, the
  total of a hand on the server's side, and the receive events that the player phase
  treats as a hit.
\<close>

definition payload_packet :: "int \<Rightarrow> int \<Rightarrow> int \<Rightarrow> bytes" where
  "payload_packet result rank suit =
     put_I MAGIC_COOKIE @ put_B PAYLOAD_TYPE @ put_B result
       @ put_B (drop_bit 8 rank AND 255) @ put_B (rank AND 255) @ put_B suit"

definition card_packet :: "int \<times> int \<Rightarrow> bytes" where
  "card_packet c = payload_packet 0 (fst c) (snd c)"

definition hand_value :: "(int \<times> int) list \<Rightarrow> int" where
  "hand_value cards = sum_list (map (\<lambda>c. card_value (fst c)) cards)"

definition is_hit :: "recv_event \<Rightarrow> bool" where
  "is_hit ev =
     (case ev of
        RecvRaises \<Rightarrow> False
      | Data data \<Rightarrow>
          data \<noteq> [] \<and>
          (case unpack_IB5s data of
             Inl e \<Rightarrow> False
           | Inr (c, t, b) \<Rightarrow> decision_of b = Inr (str_lit ''Hittt'')))"

definition valid_card :: "int \<times> int \<Rightarrow> bool" where
  \<comment> \<open>what \<open>random.randint(1, 13)\<close> and \<open>random.randint(0, 3)\<close> can return\<close>
  "valid_card c = (1 \<le> fst c \<and> fst c \<le> 13 \<and> 0 \<le> snd c \<and> snd c \<le> 3)"

definition fresh_world :: "(int \<times> int) list \<Rightarrow> recv_event list \<Rightarrow> world" where
  \<comment> \<open>a connection on which nothing was sent yet and every send succeeds\<close>
  "fresh_world ds evs = \<lparr>draws = ds, rx = evs, tx = [], sends_left = None\<rparr>"

definition hit_packet :: bytes where
  "hit_packet = [0xab, 0xcd, 0xdc, 0xba, 4, 72, 105, 116, 116, 116]"

definition stand_packet :: bytes where
  "stand_packet = [0xab, 0xcd, 0xdc, 0xba, 4, 83, 116, 97, 110, 100]"

definition forged_hit_packet :: bytes where
  \<comment> \<open>the bytes of \<open>hit_packet\<close> with the cookie replaced by zeros\<close>
  "forged_hit_packet = [0, 0, 0, 0, 4, 72, 105, 116, 116, 116]"

definition request_bytes :: "int \<Rightarrow> bytes" where
  \<comment> \<open>the Request of the client's team for the given number of rounds\<close>
  "request_bytes n = put_I MAGIC_COOKIE @ put_B 3 @ put_B n @ put_s 32 (ascii_bytes TEAM_NAME)"

definition sends_only_cards :: "'a io \<Rightarrow> bool" where
  \<comment> \<open>whatever the call does, all it sends are card packets\<close>
  "sends_only_cards m =
     (\<forall>w r w'. m w = (r, w') \<longrightarrow> (\<exists>cards. tx w' = tx w @ map card_packet cards))"

declare player_phase.simps [simp del] dealer_loop.simps [simp del]

section \<open>Effects of the primitive calls\<close>

lemma and_255_fits: "fits_B (x AND 255)"
proof -
  have "(255::int) = mask 8" by (simp add: mask_eq_exp_minus_1)
  then have "x AND 255 = take_bit 8 x" by (simp add: take_bit_eq_mask)
  then show ?thesis by (simp add: fits_B_def take_bit_eq_mod)
qed

lemma pack_payload:
  "pack_IBB3B MAGIC_COOKIE PAYLOAD_TYPE result (drop_bit 8 rank AND 255) (rank AND 255) suit =
     (if fits_B result \<and> fits_B suit then Inr (payload_packet result rank suit) else Inl StructError)"
  by (simp add: pack_IBB3B_def payload_packet_def and_255_fits)
     (simp add: fits_I_def fits_B_def MAGIC_COOKIE_def PAYLOAD_TYPE_def)

lemma send_payload_eq:
  "send_payload result rank suit w =
     (if fits_B result \<and> fits_B suit then conn_send (payload_packet result rank suit) w
      else (Inl (Raised StructError), w))"
  by (simp add: send_payload_def Let_def pack_payload)

lemma send_payload_Inr:
  "send_payload result rank suit w = (Inr u, w') \<Longrightarrow>
     fits_B result \<and> fits_B suit \<and> tx w' = tx w @ [payload_packet result rank suit]
     \<and> rx w' = rx w \<and> draws w' = draws w"
  by (auto simp: send_payload_eq conn_send_def split: if_splits option.splits nat.splits)

lemma send_payload_Inl:
  "send_payload result rank suit w = (Inl e, w') \<Longrightarrow> w' = w"
  by (auto simp: send_payload_eq conn_send_def split: if_splits option.splits nat.splits)

lemma send_payload_open:
  "sends_left w = None \<Longrightarrow> fits_B result \<Longrightarrow> fits_B suit \<Longrightarrow>
     send_payload result rank suit w = (Inr (), w\<lparr>tx := tx w @ [payload_packet result rank suit]\<rparr>)"
  by (simp add: send_payload_eq conn_send_def)

lemma deal_card_Inr:
  "deal_card w = (Inr (r, s, v), w') \<Longrightarrow>
     draws w = (r, s) # draws w' \<and> v = card_value r \<and> rx w' = rx w \<and> tx w' = tx w \<and> sends_left w' = sends_left w"
  by (auto simp: deal_card_def split: list.splits)

lemma deal_card_Inl:
  "deal_card w = (Inl e, w') \<Longrightarrow> w' = w \<and> e = NoMoreDraws"
  by (auto simp: deal_card_def split: list.splits)

lemma io_bind_Inr:
  "io_bind m f w = (Inr b, w') \<longleftrightarrow> (\<exists>a w1. m w = (Inr a, w1) \<and> f a w1 = (Inr b, w'))"
  by (auto simp: io_bind_def split: prod.splits sum.splits)

lemma io_bind_Inl:
  "io_bind m f w = (Inl e, w') \<longleftrightarrow>
     m w = (Inl e, w') \<or> (\<exists>a w1. m w = (Inr a, w1) \<and> f a w1 = (Inl e, w'))"
  by (auto simp: io_bind_def split: prod.splits sum.splits)

lemma io_return_eq: "io_return a w = (r, w') \<longleftrightarrow> r = Inr a \<and> w' = w"
  by (auto simp: io_return_def)

section \<open>The two loops of a round\<close>

lemma conn_recv_Inr:
  "conn_recv w = (Inr data, w') \<Longrightarrow> rx w = Data data # rx w' \<and> draws w' = draws w \<and> tx w' = tx w \<and> sends_left w' = sends_left w"
  by (auto simp: conn_recv_def split: list.splits recv_event.splits)

lemma player_phase_Inr_cases:
  assumes "player_phase p w = (Inr p', w')"
  shows "(21 < p \<and> p' = p \<and> w' = w)
       \<or> (p \<le> 21 \<and> p' = p \<and> (\<exists>data. conn_recv w = (Inr data, w') \<and> \<not> is_hit (Data data)))
       \<or> (p \<le> 21 \<and> (\<exists>data w1 r s w2 w3. conn_recv w = (Inr data, w1) \<and> is_hit (Data data)
             \<and> deal_card w1 = (Inr (r, s, card_value r), w2)
             \<and> send_payload 0 r s w2 = (Inr (), w3)
             \<and> player_phase (p + card_value r) w3 = (Inr p', w')))"
proof (cases "p \<le> 21")
  case False
  with assms show ?thesis by (simp add: player_phase.simps [of p w])
next
  case True
  from assms True obtain data w1 where cr: "conn_recv w = (Inr data, w1)"
    by (auto simp: player_phase.simps [of p w] split: prod.splits sum.splits)
  show ?thesis
  proof (cases "is_hit (Data data)")
    case False
    with assms True cr have "p' = p \<and> w' = w1"
      by (auto simp: player_phase.simps [of p w] is_hit_def
               split: sum.splits prod.splits if_splits)
    with cr False True show ?thesis by simp
  next
    case h: True
    then obtain c t b where u: "data \<noteq> []" "unpack_IB5s data = Inr (c, t, b)"
        "decision_of b = Inr (str_lit ''Hittt'')"
      by (auto simp: is_hit_def split: sum.splits)
    with True cr have "player_phase p w =
        (case deal_card w1 of
           (Inl e, w2) \<Rightarrow> (Inl e, w2)
         | (Inr (r, s, v), w2) \<Rightarrow>
             (case send_payload 0 r s w2 of
                (Inl e, w3) \<Rightarrow> (Inl e, w3)
              | (Inr _, w3) \<Rightarrow> player_phase (p + v) w3))"
      by (simp add: player_phase.simps [of p w])
    with assms obtain r s v w2 w3 where
      st: "deal_card w1 = (Inr (r, s, v), w2)" "send_payload 0 r s w2 = (Inr (), w3)"
          "player_phase (p + v) w3 = (Inr p', w')"
      by (auto split: prod.splits sum.splits)
    from deal_card_Inr [OF st(1)] have "v = card_value r" by simp
    with st cr h True show ?thesis by blast
  qed
qed

lemma player_phase_trace:
  "player_phase p w = (Inr p', w') \<Longrightarrow>
     \<exists>evs cards. rx w = evs @ rx w' \<and> draws w = cards @ draws w'
       \<and> tx w' = tx w @ map card_packet cards
       \<and> p' = p + hand_value cards
       \<and> (\<forall>k < length cards. p + hand_value (take k cards) \<le> 21)
       \<and> list_all is_hit (take (length cards) evs)
       \<and> ((21 < p' \<and> length evs = length cards)
          \<or> (p' \<le> 21 \<and> length evs = Suc (length cards) \<and> \<not> is_hit (last evs)))"
proof (induction "length (rx w)" arbitrary: p w rule: less_induct)
  case less
  from player_phase_Inr_cases [OF less.prems]
  consider (over) "21 < p" "p' = p" "w' = w"
    | (break) data where "p \<le> 21" "p' = p" "conn_recv w = (Inr data, w')" "\<not> is_hit (Data data)"
    | (hit) data w1 r s w2 w3 where "p \<le> 21" "conn_recv w = (Inr data, w1)" "is_hit (Data data)"
        "deal_card w1 = (Inr (r, s, card_value r), w2)"
        "send_payload 0 r s w2 = (Inr (), w3)"
        "player_phase (p + card_value r) w3 = (Inr p', w')"
    by blast
  then show ?case
  proof cases
    case over
    then show ?thesis
      by (intro exI [of _ "[]"]) (simp add: hand_value_def)
  next
    case break
    note r = conn_recv_Inr [OF break(3)]
    show ?thesis
      apply (rule exI [of _ "[Data data]"])
      apply (rule exI [of _ "[]"])
      using break r by (simp add: hand_value_def)
  next
    case hit
    note r = conn_recv_Inr [OF hit(2)] and d = deal_card_Inr [OF hit(4)]
      and sp = send_payload_Inr [OF hit(5)]
    have "length (rx w3) < length (rx w)" using r d sp by simp
    from less.hyps [OF this hit(6)]
    obtain evs cards where c: "rx w3 = evs @ rx w'" "draws w3 = cards @ draws w'"
       "tx w' = tx w3 @ map card_packet cards"
       "p' = p + card_value r + hand_value cards"
       "\<forall>k < length cards. p + card_value r + hand_value (take k cards) \<le> 21"
       "list_all is_hit (take (length cards) evs)"
       "(21 < p' \<and> length evs = length cards)
          \<or> (p' \<le> 21 \<and> length evs = Suc (length cards) \<and> \<not> is_hit (last evs))"
      by blast
    have pre: "\<forall>k < length ((r, s) # cards). p + hand_value (take k ((r, s) # cards)) \<le> 21"
    proof (intro allI impI)
      fix k assume "k < length ((r, s) # cards)"
      then show "p + hand_value (take k ((r, s) # cards)) \<le> 21"
        using c(5) hit(1) by (cases k) (auto simp: hand_value_def)
    qed
    have last: "length evs = Suc (length cards) \<Longrightarrow> last (Data data # evs) = last evs"
      by auto
    show ?thesis
      apply (rule exI [of _ "Data data # evs"])
      apply (rule exI [of _ "(r, s) # cards"])
      using c(1-4,6,7) pre r d sp hit(3) last
      by (auto simp: hand_value_def card_packet_def)
  qed
qed

lemma dealer_loop_trace:
  "dealer_loop d w = (Inr d', w') \<Longrightarrow>
     \<exists>cards. draws w = cards @ draws w' \<and> rx w' = rx w
       \<and> tx w' = tx w @ map card_packet cards
       \<and> d' = d + hand_value cards \<and> 17 \<le> d'
       \<and> (\<forall>k < length cards. d + hand_value (take k cards) < 17)"
proof (induction d w arbitrary: d' w' rule: dealer_loop.induct)
  case (1 dealer_sum w)
  show ?case
  proof (cases "dealer_sum < 17")
    case False
    with "1.prems" have "d' = dealer_sum" "w' = w" by (simp_all add: dealer_loop.simps)
    with False show ?thesis by (intro exI [of _ "[]"]) (simp add: hand_value_def)
  next
    case True
    with "1.prems" obtain r s v w1 w2 where
      dc: "deal_card w = (Inr (r, s, v), w1)" and
      sp: "send_payload 0 r s w1 = (Inr (), w2)" and
      rec: "dealer_loop (dealer_sum + v) w2 = (Inr d', w')"
      by (auto simp: dealer_loop.simps [of dealer_sum w] split: prod.splits sum.splits)
    from "1.IH" [OF True dc [symmetric] refl refl refl sp [symmetric] refl rec]
    obtain cards where c: "draws w2 = cards @ draws w'" "rx w' = rx w2"
       "tx w' = tx w2 @ map card_packet cards" "d' = dealer_sum + v + hand_value cards" "17 \<le> d'"
       "\<forall>k < length cards. dealer_sum + v + hand_value (take k cards) < 17"
      by blast
    note d = deal_card_Inr [OF dc] and s = send_payload_Inr [OF sp]
    have "\<forall>k < length ((r, s) # cards). dealer_sum + hand_value (take k ((r, s) # cards)) < 17"
    proof (intro allI impI)
      fix k assume "k < length ((r, s) # cards)"
      then show "dealer_sum + hand_value (take k ((r, s) # cards)) < 17"
        using c(6) d True by (cases k) (auto simp: hand_value_def)
    qed
    then show ?thesis using c d s
      by (intro exI [of _ "(r, s) # cards"]) (simp add: hand_value_def card_packet_def)
  qed
qed


section \<open>The phases of a round\<close>

lemma initial_deal_Inr:
  assumes "initial_deal w = (Inr (p0, d0, hr, hs), w1)"
  shows "\<exists>c1 c2 c3. draws w = c1 # c2 # c3 # (hr, hs) # draws w1
           \<and> p0 = hand_value [c1, c2] \<and> d0 = hand_value [c3, (hr, hs)]
           \<and> tx w1 = tx w @ map card_packet [c1, c2, c3] \<and> rx w1 = rx w"
  using assms unfolding initial_deal_def
  apply (clarsimp simp: io_bind_Inr io_return_eq)
  apply (auto dest!: deal_card_Inr send_payload_Inr simp: hand_value_def card_packet_def)
  done

lemma final_sums_Inr:
  "final_sums w = (Inr (p, d), w4) \<longleftrightarrow>
     (\<exists>p0 d0 hr hs w1 w2 w3. initial_deal w = (Inr (p0, d0, hr, hs), w1)
        \<and> player_phase p0 w1 = (Inr p, w2)
        \<and> send_payload 0 hr hs w2 = (Inr (), w3)
        \<and> dealer_phase p d0 w3 = (Inr d, w4))"
  unfolding final_sums_def
  by (auto simp: io_bind_Inr io_return_eq)

lemma play_round_Inr:
  "play_round w = (Inr result, w') \<longleftrightarrow>
     (\<exists>p d w4. final_sums w = (Inr (p, d), w4) \<and> result = decide_outcome p d
        \<and> send_payload result 0 0 w4 = (Inr (), w'))"
  unfolding play_round_def
  by (auto simp: io_bind_Inr io_return_eq Let_def)

section \<open>Running a round on a script\<close>

lemmas round_eval =
  fresh_world_def play_round_def final_sums_def initial_deal_def io_bind_def io_return_def deal_card_def
  send_payload_open conn_recv_def player_phase.simps dealer_loop.simps dealer_phase_def
  decide_outcome_def card_value_def fits_B_def Let_def

lemma hit_packet_decision:
  "unpack_IB5s hit_packet = Inr (MAGIC_COOKIE, 4, ascii_bytes ''Hittt'')"
  by (simp add: unpack_IB5s_def hit_packet_def get_I_def get_B_def get_s_def MAGIC_COOKIE_def ascii_bytes_def)

lemma stand_packet_decision:
  "unpack_IB5s stand_packet = Inr (MAGIC_COOKIE, 4, ascii_bytes ''Stand'')"
  by (simp add: unpack_IB5s_def stand_packet_def get_I_def get_B_def get_s_def MAGIC_COOKIE_def ascii_bytes_def)

lemma decision_of_Hittt: "decision_of (ascii_bytes ''Hittt'') = Inr (str_lit ''Hittt'')"
  by (simp add: decision_of_def bytes_decode_def ascii_bytes_def str_lit_def strip_chars_def is_nul_def is_space_def)

lemma decision_of_Stand: "decision_of (ascii_bytes ''Stand'') = Inr (str_lit ''Stand'')"
  by (simp add: decision_of_def bytes_decode_def ascii_bytes_def str_lit_def strip_chars_def is_nul_def is_space_def)

lemma Stand_not_Hittt: "str_lit ''Stand'' \<noteq> str_lit ''Hittt''"
  by (simp add: str_lit_def)

lemma hit_nonempty: "hit_packet \<noteq> []" "stand_packet \<noteq> []"
  by (simp_all add: hit_packet_def stand_packet_def)

lemmas decision_eval = hit_packet_decision stand_packet_decision decision_of_Hittt decision_of_Stand Stand_not_Hittt hit_nonempty

section \<open>Card values on both sides (C4)\<close>

lemma calculate_points_from_sum:
  "calculate_points_from tot hand = tot + hand_value hand"
  by (induction tot hand rule: calculate_points_from.induct)
     (auto simp: hand_value_def card_value_def)

text \<open>
  C4. The value \<open>deal_card\<close> attaches to a rank is 11 for rank 1, 10 for a rank of 11 or
  more, and the rank otherwise; \<open>calculate_points\<close> gives a single card the same value,
  and for every hand it returns the sum of these values over the hand's cards, which is
  the total the server accumulates for the same cards. This holds for every integer
  rank, in particular for the ranks 1 to 13.
\<close>

theorem card_value_both_sides:
  "(deal_card w = (Inr (rank, suit, v), w') \<longrightarrow>
      v = (if rank = 1 then 11 else if 11 \<le> rank then 10 else rank))
   \<and> calculate_points [(r, s)] = (if r = 1 then 11 else if 11 \<le> r then 10 else r)
   \<and> calculate_points hand = hand_value hand
   \<and> hand_value hand =
       sum_list (map (\<lambda>(r, s). if r = 1 then 11 else if 11 \<le> r then 10 else r) hand)"
proof -
  have "hand_value hand =
       sum_list (map (\<lambda>(r, s). if r = 1 then 11 else if 11 \<le> r then 10 else r) hand)"
    by (induction hand) (auto simp: hand_value_def card_value_def)
  then show ?thesis
    by (auto simp: calculate_points_def calculate_points_from_sum hand_value_def card_value_def
             dest: deal_card_Inr)
qed

theorem card_value_both_sides_witness:
  "deal_card \<lparr>draws = [(12, 3)], rx = [], tx = [], sends_left = None\<rparr>
     = (Inr (12, 3, 10), \<lparr>draws = [], rx = [], tx = [], sends_left = None\<rparr>)
   \<and> calculate_points [(12, 3)] = 10
   \<and> calculate_points [(1, 0), (12, 3), (7, 2)] = 28
   \<and> hand_value [(1, 0), (12, 3), (7, 2)] = 28"
  using card_value_both_sides [of "\<lparr>draws = [(12, 3)], rx = [], tx = [], sends_left = None\<rparr>"
      12 3 10 "\<lparr>draws = [], rx = [], tx = [], sends_left = None\<rparr>" 12 3
      "[(1, 0), (12, 3), (7, 2)]"]
  by (simp add: deal_card_def card_value_def)

section \<open>The statistics never divide by zero (C10)\<close>

text \<open>
  C10. The counters start at 0 and are only incremented, so they are never negative.
  From such a state, \<open>update_global_stats\<close> adds one to exactly one counter, whatever
  the result value is: \<open>total_losses\<close> for 3, \<open>total_wins\<close> for 2, \<open>total_ties\<close> for
  every other value. The number of games it then divides by is at least 1, so the call
  returns and does not raise \<open>ZeroDivisionError\<close>. The body runs under \<open>stats_lock\<close>;
  it is modelled as one atomic step.
\<close>

theorem update_global_stats_counts:
  assumes "0 \<le> total_wins st" and "0 \<le> total_losses st" and "0 \<le> total_ties st"
  shows "\<exists>st'. update_global_stats result st = (Inr (), st')
          \<and> total_losses st' = total_losses st + (if result = 3 then 1 else 0)
          \<and> total_wins st' = total_wins st + (if result \<noteq> 3 \<and> result = 2 then 1 else 0)
          \<and> total_ties st' = total_ties st + (if result \<noteq> 3 \<and> result \<noteq> 2 then 1 else 0)
          \<and> total_games st' = total_games st + 1
          \<and> 1 \<le> total_games st'
          \<and> 0 \<le> total_wins st' \<and> 0 \<le> total_losses st' \<and> 0 \<le> total_ties st'"
  using assms
  by (auto simp: update_global_stats_def count_result_def total_games_def Let_def)

theorem update_global_stats_counts_witness:
  "update_global_stats 7 init_stats
     = (Inr (), \<lparr>total_wins = 0, total_losses = 0, total_ties = 1\<rparr>)
   \<and> total_games \<lparr>total_wins = 0, total_losses = 0, total_ties = 1\<rparr> = 1"
  using update_global_stats_counts [of init_stats 7]
  by (simp add: init_stats_def update_global_stats_def count_result_def total_games_def)

section \<open>The outcome rule (C1)\<close>

text \<open>
  C1. When \<open>play_round\<close> returns, its result is decided from the two totals reached
  before the outcome block by the first matching rule, in this order: player total above
  21 gives 2; else dealer total above 21 gives 3; else a higher player total gives 3; else
  a higher dealer total gives 2; else 1. For a player total of 22 and a dealer total of
  25 the rule gives 2.
\<close>

theorem outcome_first_match:
  "(play_round w = (Inr result, w') \<longrightarrow>
      (\<exists>player_sum dealer_sum w4. final_sums w = (Inr (player_sum, dealer_sum), w4)
         \<and> result = (if 21 < player_sum then 2
                      else if 21 < dealer_sum then 3
                      else if dealer_sum < player_sum then 3
                      else if player_sum < dealer_sum then 2
                      else 1)))
   \<and> decide_outcome 22 25 = 2"
  by (auto simp: play_round_Inr decide_outcome_def)

theorem outcome_first_match_witness:
  "play_round (fresh_world [(10, 0), (9, 1), (10, 2), (2, 3), (3, 1), (6, 0)] [Data stand_packet])
     = (Inr 2,
        \<lparr>draws = [], rx = [],
         tx = [payload_packet 0 10 0, payload_packet 0 9 1, payload_packet 0 10 2,
               payload_packet 0 2 3, payload_packet 0 3 1, payload_packet 0 6 0,
               payload_packet 2 0 0],
         sends_left = None\<rparr>)
   \<and> fst (final_sums
        (fresh_world [(10, 0), (9, 1), (10, 2), (2, 3), (3, 1), (6, 0)] [Data stand_packet]))
     = Inr (19, 21)
   \<and> decide_outcome 22 25 = 2"
  using outcome_first_match
    [of "fresh_world [(10, 0), (9, 1), (10, 2), (2, 3), (3, 1), (6, 0)] [Data stand_packet]" 2
        "\<lparr>draws = [], rx = [],
         tx = [payload_packet 0 10 0, payload_packet 0 9 1, payload_packet 0 10 2,
               payload_packet 0 2 3, payload_packet 0 3 1, payload_packet 0 6 0,
               payload_packet 2 0 0],
         sends_left = None\<rparr>"]
  by (simp add: round_eval decision_eval)

section \<open>Packing and unpacking\<close>

lemma uint_byte: "uint (word_of_int x :: byte) = x mod 256"
  by (simp add: uint_word_of_int take_bit_eq_mod)

lemma get_put_B: "fits_B x \<Longrightarrow> uint (word_of_int x :: byte) = x"
  by (simp add: uint_byte fits_B_def)

lemma be16_join:
  "0 \<le> p \<Longrightarrow> p \<le> 65535 \<Longrightarrow> p div 256 mod 256 * 256 + p mod 256 = (p::int)"
  by simp

lemma be32_join:
  assumes "0 \<le> c" "c \<le> 4294967295"
  shows "c div 16777216 mod 256 * 16777216 + c div 65536 mod 256 * 65536
       + c div 256 mod 256 * 256 + c mod 256 = (c::int)"
proof -
  define A where "A = c div 16777216"
  define B where "B = c div 65536"
  define C where "C = c div 256"
  have e1: "A mod 256 = A" using assms by (simp add: A_def)
  have "B div 256 = A" by (simp add: A_def B_def)
  then have s1: "B = A * 256 + B mod 256" using div_mult_mod_eq [of B 256] by simp
  have "C div 256 = B" by (simp add: B_def C_def)
  then have s2: "C = B * 256 + C mod 256" using div_mult_mod_eq [of C 256] by simp
  have s3: "c = C * 256 + c mod 256" by (simp add: C_def)
  have "A * 16777216 + B mod 256 * 65536 + C mod 256 * 256 + c mod 256 = c"
  proof -
    have "A * 16777216 + B mod 256 * 65536 = (A * 256 + B mod 256) * 65536" by simp
    also have "\<dots> = B * 65536" using s1 by simp
    finally have "A * 16777216 + B mod 256 * 65536 + C mod 256 * 256
        = (B * 256 + C mod 256) * 256" by simp
    also have "\<dots> = C * 256" using s2 by simp
    finally show ?thesis using s3 by simp
  qed
  then show ?thesis using e1 by (simp only: A_def B_def C_def)
qed

lemma get_put_I: "fits_I c \<Longrightarrow> get_I (put_I c @ rest) 0 = c"
  by (simp add: fits_I_def get_I_def put_I_def uint_byte be32_join)

lemma length_put [simp]:
  "length (put_I c) = 4" "length (put_B t) = 1" "length (put_H p) = 2"
  by (simp_all add: put_I_def put_B_def put_H_def)

lemma length_put_s [simp]: "length (put_s n b) = n"
  by (simp add: put_s_def)

lemma put_s_exact: "length b = n \<Longrightarrow> put_s n b = b"
  by (simp add: put_s_def)

lemma unpack_pack_IBH32s:
  assumes "fits_I c" "fits_B t" "fits_H p" "length name = 32"
  shows "unpack_IBH32s (put_I c @ put_B t @ put_H p @ put_s 32 name) = Inr (c, t, p, name)"
proof -
  let ?d = "put_I c @ put_B t @ put_H p @ put_s 32 name"
  have 1: "get_I ?d 0 = c" using assms(1) by (rule get_put_I)
  have 2: "get_B ?d 4 = t" using assms(2)
    by (simp add: get_B_def nth_append put_B_def get_put_B)
  have 3: "get_H ?d 5 = p" using assms(3)
    by (simp add: get_H_def nth_append put_B_def put_H_def uint_byte fits_H_def be16_join)
  have 4: "get_s ?d 7 32 = name" using assms(4)
    by (simp add: get_s_def put_s_exact)
  show ?thesis by (simp add: unpack_IBH32s_def 1 2 3 4)
qed

lemma unpack_pack_IBB32s:
  assumes "fits_I c" "fits_B t" "fits_B n" "length name = 32"
  shows "unpack_IBB32s (put_I c @ put_B t @ put_B n @ put_s 32 name) = Inr (c, t, n, name)"
proof -
  let ?d = "put_I c @ put_B t @ put_B n @ put_s 32 name"
  have 1: "get_I ?d 0 = c" using assms(1) by (rule get_put_I)
  have 2: "get_B ?d 4 = t" using assms(2)
    by (simp add: get_B_def nth_append put_B_def get_put_B)
  have 3: "get_B ?d 5 = n" using assms(3)
    by (simp add: get_B_def nth_append put_B_def get_put_B)
  have 4: "get_s ?d 6 32 = name" using assms(4)
    by (simp add: get_s_def put_s_exact)
  show ?thesis by (simp add: unpack_IBB32s_def 1 2 3 4)
qed

lemma fits_cookie: "fits_I MAGIC_COOKIE"
  by (simp add: fits_I_def MAGIC_COOKIE_def)

lemma unpack_payload_packet:
  assumes "fits_B result" "fits_B suit"
  shows "unpack_IBB3B (payload_packet result rank suit) =
           Inr (MAGIC_COOKIE, PAYLOAD_TYPE, result, drop_bit 8 rank AND 255, rank AND 255, suit)"
proof -
  let ?d = "payload_packet result rank suit"
  have l: "length ?d = 9" by (simp add: payload_packet_def)
  have 1: "get_I ?d 0 = MAGIC_COOKIE"
    unfolding payload_packet_def using fits_cookie by (rule get_put_I)
  have t: "fits_B PAYLOAD_TYPE" by (simp add: fits_B_def PAYLOAD_TYPE_def)
  have 2: "get_B ?d 4 = PAYLOAD_TYPE" "get_B ?d 5 = result"
      "get_B ?d 6 = drop_bit 8 rank AND 255" "get_B ?d 7 = rank AND 255" "get_B ?d 8 = suit"
    using assms t and_255_fits [of "drop_bit 8 rank"] and_255_fits [of rank]
    by (simp_all add: payload_packet_def get_B_def nth_append put_B_def get_put_B)
  show ?thesis by (simp add: unpack_IBB3B_def l 1 2)
qed

lemma rank_rejoin:
  assumes "0 \<le> r" "r \<le> 65535"
  shows "push_bit 8 (drop_bit 8 r AND 255) OR (r AND 255) = (r::int)"
proof -
  have m: "(255::int) = mask 8" by (simp add: mask_eq_exp_minus_1)
  have t: "take_bit 16 r = r" using assms by (simp add: take_bit_int_eq_self)
  have "bit (push_bit 8 (drop_bit 8 r AND 255) OR (r AND 255)) n = bit (take_bit 16 r) n" for n
    unfolding m by (auto simp add: bit_simps)
  then show ?thesis using t by (simp add: bit_eq_iff)
qed

lemma safe_recv_payload_packet:
  assumes "fits_B result" "fits_H rank" "fits_B suit"
  shows "safe_recv (Data (payload_packet result rank suit)) = (result, rank, suit)"
proof -
  have l: "\<not> length (payload_packet result rank suit) < 9"
    by (simp add: payload_packet_def)
  have "safe_recv (Data (payload_packet result rank suit))
      = (result, push_bit 8 (drop_bit 8 rank AND 255) OR (rank AND 255), suit)"
    by (simp only: safe_recv_def recv_event.case l if_False
          unpack_payload_packet [OF assms(1,3)] sum.case prod.case simp_thms)
  moreover have "push_bit 8 (drop_bit 8 rank AND 255) OR (rank AND 255) = rank"
    using assms(2) by (intro rank_rejoin) (simp_all add: fits_H_def)
  ultimately show ?thesis by (simp only:)
qed

lemma put_I_cookie: "put_I MAGIC_COOKIE = [0xab, 0xcd, 0xdc, 0xba]"
  by (simp add: put_I_def MAGIC_COOKIE_def)

lemma action_bytes:
  "ascii_bytes (ljust 5 ''Hittt'') = [72, 105, 116, 116, 116]"
  "ascii_bytes (ljust 5 ''Stand'') = [83, 116, 97, 110, 100]"
  by (simp_all add: ascii_bytes_def ljust_def)

lemma put_s_5:
  "put_s 5 [a, b, c, d, e] = [a, b, c, d, e]"
  by (simp add: put_s_def)

lemma decision_packet_Hittt: "decision_packet ''Hittt'' = Inr hit_packet"
  by (simp add: decision_packet_def pack_IB5s_def fits_cookie fits_B_def action_bytes put_s_5
        put_I_cookie put_B_def hit_packet_def)

lemma decision_packet_Stand: "decision_packet ''Stand'' = Inr stand_packet"
  by (simp add: decision_packet_def pack_IB5s_def fits_cookie fits_B_def action_bytes put_s_5
        put_I_cookie put_B_def stand_packet_def)

section \<open>Decoding what was encoded (C3)\<close>

text \<open>
  C3. Each of the four messages is decoded to the values it was encoded from, when these
  are in the ranges of their wire fields: an Offer with a port in 0..65535 and a 32-byte
  name (\<open>broadcast_offers\<close>, read by \<open>start_client\<close>); a Request with a round count in
  0..255 and a 32-byte team name (read by \<open>handle_client\<close>, as unpacked at line 70; the
  text form of the name built at line 73 is only printed); a Decision \<open>Hittt\<close> or
  \<open>Stand\<close> (read by the server's \<open>play_round\<close>); a Round-Payload with outcome and suit
  in 0..255 and rank in 0..65535 (\<open>send_payload\<close>, read by \<open>safe_recv\<close>). In particular
  the client's \<open>(r_h << 8) | r_l\<close> of the server's \<open>(rank >> 8) & 0xFF\<close> and
  \<open>rank & 0xFF\<close> is the rank, for every rank in 0..65535.
\<close>

theorem wire_round_trip:
  "(0 \<le> tcp_port \<and> tcp_port \<le> 65535 \<and> length server_name = 32 \<longrightarrow>
      (\<exists>packet. offer_packet tcp_port server_name = Inr packet \<and> length packet = 39
         \<and> offer_of packet = Some (tcp_port, server_name)))
   \<and> (0 \<le> num_rounds \<and> num_rounds \<le> 255 \<and> length team_name = 32 \<longrightarrow>
      (\<exists>packet. request_packet num_rounds team_name = Inr packet \<and> length packet = 38
         \<and> request_of packet = Some (num_rounds, team_name)))
   \<and> (decision = ''Hittt'' \<or> decision = ''Stand'' \<longrightarrow>
      (\<exists>packet action. decision_packet decision = Inr packet
         \<and> unpack_IB5s packet = Inr (MAGIC_COOKIE, 4, action)
         \<and> decision_of action = Inr (str_lit decision)))
   \<and> (0 \<le> result \<and> result \<le> 255 \<and> 0 \<le> rank \<and> rank \<le> 65535 \<and> 0 \<le> suit \<and> suit \<le> 255
        \<and> sends_left w = None \<longrightarrow>
      (\<exists>packet. send_payload result rank suit w = (Inr (), w\<lparr>tx := tx w @ [packet]\<rparr>)
         \<and> length packet = 9 \<and> safe_recv (Data packet) = (result, rank, suit)))
   \<and> (0 \<le> r \<and> r \<le> 65535 \<longrightarrow> push_bit 8 (drop_bit 8 r AND 255) OR (r AND 255) = (r::int))"
proof (intro conjI impI)
  assume a: "0 \<le> tcp_port \<and> tcp_port \<le> 65535 \<and> length server_name = 32"
  then have "unpack_IBH32s (put_I MAGIC_COOKIE @ put_B OFFER_TYPE @ put_H tcp_port @ put_s 32 server_name)
      = Inr (MAGIC_COOKIE, OFFER_TYPE, tcp_port, server_name)"
    by (intro unpack_pack_IBH32s fits_cookie) (simp_all add: fits_B_def fits_H_def OFFER_TYPE_def)
  with a show "\<exists>packet. offer_packet tcp_port server_name = Inr packet \<and> length packet = 39
         \<and> offer_of packet = Some (tcp_port, server_name)"
    using fits_cookie
    by (simp add: offer_packet_def pack_IBH32s_def offer_of_def fits_B_def fits_H_def OFFER_TYPE_def)
next
  assume a: "0 \<le> num_rounds \<and> num_rounds \<le> 255 \<and> length team_name = 32"
  let ?d = "put_I MAGIC_COOKIE @ put_B 3 @ put_B num_rounds @ put_s 32 team_name"
  have u: "unpack_IBB32s ?d = Inr (MAGIC_COOKIE, 3, num_rounds, team_name)"
    using a by (intro unpack_pack_IBB32s fits_cookie) (simp_all add: fits_B_def)
  have l: "length ?d = 38" by simp
  have ne: "?d \<noteq> []" by (simp add: put_B_def)
  have p: "request_packet num_rounds team_name = Inr ?d"
    using a fits_cookie by (simp add: request_packet_def pack_IBB32s_def fits_B_def)
  have "request_of ?d = Some (num_rounds, team_name)"
    by (simp add: request_of_def l ne u REQUEST_TYPE_def del: append_is_Nil_conv)
  with p l show "\<exists>packet. request_packet num_rounds team_name = Inr packet \<and> length packet = 38
         \<and> request_of packet = Some (num_rounds, team_name)"
    by blast
next
  assume "decision = ''Hittt'' \<or> decision = ''Stand''"
  then show "\<exists>packet action. decision_packet decision = Inr packet
         \<and> unpack_IB5s packet = Inr (MAGIC_COOKIE, 4, action)
         \<and> decision_of action = Inr (str_lit decision)"
  proof (elim disjE)
    assume "decision = ''Hittt''"
    then show ?thesis
      using decision_packet_Hittt hit_packet_decision decision_of_Hittt by blast
  next
    assume "decision = ''Stand''"
    then show ?thesis
      using decision_packet_Stand stand_packet_decision decision_of_Stand by blast
  qed
next
  assume a: "0 \<le> result \<and> result \<le> 255 \<and> 0 \<le> rank \<and> rank \<le> 65535 \<and> 0 \<le> suit \<and> suit \<le> 255
        \<and> sends_left w = None"
  then have "send_payload result rank suit w
      = (Inr (), w\<lparr>tx := tx w @ [payload_packet result rank suit]\<rparr>)"
    by (intro send_payload_open) (simp_all add: fits_B_def)
  moreover have "safe_recv (Data (payload_packet result rank suit)) = (result, rank, suit)"
    using a by (intro safe_recv_payload_packet) (simp_all add: fits_B_def fits_H_def)
  moreover have "length (payload_packet result rank suit) = 9"
    by (simp add: payload_packet_def)
  ultimately show "\<exists>packet. send_payload result rank suit w = (Inr (), w\<lparr>tx := tx w @ [packet]\<rparr>)
         \<and> length packet = 9 \<and> safe_recv (Data packet) = (result, rank, suit)"
    by blast
next
  assume "0 \<le> r \<and> r \<le> 65535"
  then show "push_bit 8 (drop_bit 8 r AND 255) OR (r AND 255) = r"
    by (intro rank_rejoin) simp_all
qed


theorem wire_round_trip_witness:
  "length (ascii_bytes SERVER_NAME) = 32
   \<and> (\<exists>packet. offer_packet 50000 (ascii_bytes SERVER_NAME) = Inr packet \<and> length packet = 39
         \<and> offer_of packet = Some (50000, ascii_bytes SERVER_NAME))
   \<and> length (ascii_bytes TEAM_NAME) = 32
   \<and> (\<exists>packet. request_packet 3 (ascii_bytes TEAM_NAME) = Inr packet \<and> length packet = 38
         \<and> request_of packet = Some (3, ascii_bytes TEAM_NAME))
   \<and> (\<exists>packet action. decision_packet ''Hittt'' = Inr packet
         \<and> unpack_IB5s packet = Inr (MAGIC_COOKIE, 4, action)
         \<and> decision_of action = Inr (str_lit ''Hittt''))
   \<and> (\<exists>packet. send_payload 0 13 3 (fresh_world [] [])
           = (Inr (), (fresh_world [] [])\<lparr>tx := tx (fresh_world [] []) @ [packet]\<rparr>)
         \<and> length packet = 9 \<and> safe_recv (Data packet) = (0, 13, 3))
   \<and> push_bit 8 (drop_bit 8 300 AND 255) OR (300 AND 255) = (300::int)"
  using wire_round_trip [where tcp_port = 50000 and server_name = "ascii_bytes SERVER_NAME"
      and num_rounds = 3 and team_name = "ascii_bytes TEAM_NAME" and decision = "''Hittt''"
      and result = 0 and rank = 13 and suit = 3 and w = "fresh_world [] []" and r = 300]
  by (simp add: ascii_bytes_def SERVER_NAME_def TEAM_NAME_def ljust_def fresh_world_def)

section \<open>The size of a Decision message (C9)\<close>

lemma player_phase_short_read:
  assumes "p \<le> 21" "rx w = Data data # evs" "data \<noteq> []" "length data \<noteq> 10"
  shows "player_phase p w = (Inl (Raised StructError), w\<lparr>rx := evs\<rparr>)"
  using assms by (simp add: player_phase.simps [of p w] conn_recv_def unpack_IB5s_def)

text \<open>
  C9, as stated, fails: the Decision message for \<open>Hittt\<close> that the client packs with
  \<open>>IB5s\<close> has 10 bytes, not 9, and the server's \<open>struct.unpack('>IB5s', data)\<close> raises
  on its first 9 bytes.
\<close>

theorem decision_packet_size_counterexample:
  "decision_packet ''Hittt'' = Inr hit_packet \<and> length hit_packet = 10
   \<and> unpack_IB5s (take 9 hit_packet) = Inl StructError"
  by (simp add: decision_packet_Hittt) (simp add: hit_packet_def unpack_IB5s_def)

text \<open>
  C9, amended. Every Decision message the client sends is exactly 10 bytes long: the
  4-byte cookie, the 1-byte type 4 and the 5-byte action, which is \<open>Hittt\<close> or \<open>Stand\<close>.
  The server's \<open>unpack\<close> of a decision succeeds exactly on buffers of 10 bytes, and a
  non-empty buffer of any other length makes the player phase raise \<open>struct.error\<close>.
\<close>

theorem decision_packet_ten_bytes:
  "(\<exists>packet. decision_packet (decision_for choice) = Inr packet
       \<and> packet = put_I MAGIC_COOKIE @ put_B 4 @ ascii_bytes (decision_for choice)
       \<and> length (put_I MAGIC_COOKIE) = 4 \<and> length (put_B 4) = 1
       \<and> length (ascii_bytes (decision_for choice)) = 5
       \<and> length packet = 10)
   \<and> (decision_for choice = ''Hittt'' \<or> decision_for choice = ''Stand'')
   \<and> ((\<exists>fields. unpack_IB5s data = Inr fields) \<longleftrightarrow> length data = 10)
   \<and> (p \<le> 21 \<and> rx w = Data data # evs \<and> data \<noteq> [] \<and> length data \<noteq> 10 \<longrightarrow>
        player_phase p w = (Inl (Raised StructError), w\<lparr>rx := evs\<rparr>))"
proof -
  have 1: "decision_for choice = ''Hittt'' \<or> decision_for choice = ''Stand''"
    by (simp add: decision_for_def)
  have 2: "\<exists>packet. decision_packet d = Inr packet
       \<and> packet = put_I MAGIC_COOKIE @ put_B 4 @ ascii_bytes d
       \<and> length (put_I MAGIC_COOKIE) = 4 \<and> length (put_B 4) = 1
       \<and> length (ascii_bytes d) = 5 \<and> length packet = 10"
    if "d = ''Hittt'' \<or> d = ''Stand''" for d
    using that
    by (auto simp: decision_packet_Hittt decision_packet_Stand hit_packet_def stand_packet_def
          put_I_cookie put_B_def ascii_bytes_def)
  have 3: "(\<exists>fields. unpack_IB5s data = Inr fields) \<longleftrightarrow> length data = 10"
    by (simp add: unpack_IB5s_def)
  show ?thesis using 1 2 [OF 1] 3 player_phase_short_read by blast
qed

theorem decision_packet_ten_bytes_witness:
  "(\<exists>packet. decision_packet (decision_for ''s'') = Inr packet
       \<and> packet = put_I MAGIC_COOKIE @ put_B 4 @ ascii_bytes (decision_for ''s'')
       \<and> length packet = 10)
   \<and> decision_for ''s'' = ''Stand''
   \<and> unpack_IB5s stand_packet = Inr (MAGIC_COOKIE, 4, ascii_bytes ''Stand'')
   \<and> player_phase 19 (fresh_world [] [Data (take 9 stand_packet)])
        = (Inl (Raised StructError), fresh_world [] [])"
  using decision_packet_ten_bytes [where choice = "''s''" and data = "take 9 stand_packet"
      and p = 19 and w = "fresh_world [] [Data (take 9 stand_packet)]" and evs = "[]"]
  by (simp add: stand_packet_decision decision_for_def)
     (simp add: fresh_world_def stand_packet_def)

section \<open>The dealer's strategy (C5)\<close>

lemma dealer_loop_returns:
  "list_all valid_card (draws w) \<Longrightarrow> sends_left w = None
    \<Longrightarrow> 17 \<le> d + 2 * int (length (draws w))
    \<Longrightarrow> \<exists>d' w'. dealer_loop d w = (Inr d', w')"
proof (induction "draws w" arbitrary: d w)
  case Nil
  then show ?case by (simp add: dealer_loop.simps [of d w])
next
  case (Cons c cs)
  show ?case
  proof (cases "d < 17")
    case False
    then show ?thesis by (simp add: dealer_loop.simps [of d w])
  next
    case True
    obtain r s where c: "c = (r, s)" by (cases c)
    from Cons.hyps(2) c have dw: "draws w = (r, s) # cs" by simp
    from Cons.prems(1) dw have v: "valid_card (r, s)" "list_all valid_card cs" by simp_all
    let ?w1 = "w\<lparr>draws := cs\<rparr>"
    let ?w2 = "?w1\<lparr>tx := tx ?w1 @ [payload_packet 0 r s]\<rparr>"
    have dc: "deal_card w = (Inr (r, s, card_value r), ?w1)"
      by (simp add: deal_card_def dw)
    have sp: "send_payload 0 r s ?w1 = (Inr (), ?w2)"
      using Cons.prems(2) v(1)
      by (intro send_payload_open) (simp_all add: fits_B_def valid_card_def)
    have "2 \<le> card_value r" using v(1) by (auto simp: valid_card_def card_value_def)
    then have "17 \<le> d + card_value r + 2 * int (length (draws ?w2))"
      using Cons.prems(3) dw by simp
    from Cons.hyps(1) [of ?w2 "d + card_value r", OF _ _ _ this] v(2) Cons.prems(2)
    obtain d' w' where "dealer_loop (d + card_value r) ?w2 = (Inr d', w')" by auto
    then show ?thesis using True dc sp by (simp add: dealer_loop.simps [of d w])
  qed
qed

text \<open>
  C5. When the dealer phase returns, the dealer has drawn a prefix \<open>cards\<close> of the
  coming draws and sent one card packet for each; its total was below 17 before every
  one of these draws, and, when the phase was entered, is at least 17 after the last
  one, so it stops at the first total of 17 or more. It draws nothing when the player
  total is above 21 (the loop is not entered) and nothing when its two-card total is
  already 17 or more. The phase does return when the coming draws are valid cards,
  there are enough of them to reach 17, and the sends succeed.
\<close>

theorem dealer_draws_to_17:
  "(dealer_phase player_sum dealer_sum w = (Inr d', w') \<longrightarrow>
      (\<exists>cards. draws w = cards @ draws w' \<and> tx w' = tx w @ map card_packet cards
         \<and> rx w' = rx w
         \<and> d' = dealer_sum + hand_value cards
         \<and> (\<forall>k < length cards. dealer_sum + hand_value (take k cards) < 17)
         \<and> (player_sum \<le> 21 \<longrightarrow> 17 \<le> d')
         \<and> (21 < player_sum \<longrightarrow> cards = [])
         \<and> (17 \<le> dealer_sum \<longrightarrow> cards = [])))
   \<and> (list_all valid_card (draws w) \<and> sends_left w = None
        \<and> 17 \<le> dealer_sum + 2 * int (length (draws w)) \<longrightarrow>
      (\<exists>d' w'. dealer_phase player_sum dealer_sum w = (Inr d', w')))"
proof (intro conjI impI)
  assume r: "dealer_phase player_sum dealer_sum w = (Inr d', w')"
  show "\<exists>cards. draws w = cards @ draws w' \<and> tx w' = tx w @ map card_packet cards
         \<and> rx w' = rx w
         \<and> d' = dealer_sum + hand_value cards
         \<and> (\<forall>k < length cards. dealer_sum + hand_value (take k cards) < 17)
         \<and> (player_sum \<le> 21 \<longrightarrow> 17 \<le> d')
         \<and> (21 < player_sum \<longrightarrow> cards = [])
         \<and> (17 \<le> dealer_sum \<longrightarrow> cards = [])"
  proof (cases "player_sum \<le> 21")
    case False
    with r have "d' = dealer_sum" "w' = w" by (simp_all add: dealer_phase_def io_return_def)
    with False show ?thesis by (intro exI [of _ "[]"]) (simp add: hand_value_def)
  next
    case True
    with r have "dealer_loop dealer_sum w = (Inr d', w')" by (simp add: dealer_phase_def)
    from dealer_loop_trace [OF this]
    obtain cards where c: "draws w = cards @ draws w'" "rx w' = rx w"
       "tx w' = tx w @ map card_packet cards" "d' = dealer_sum + hand_value cards" "17 \<le> d'"
       "\<forall>k < length cards. dealer_sum + hand_value (take k cards) < 17"
      by blast
    have "cards = []" if "17 \<le> dealer_sum"
    proof (rule ccontr)
      assume "cards \<noteq> []"
      then have "0 < length cards" by simp
      with c(6) have "dealer_sum + hand_value (take 0 cards) < 17" by blast
      with that show False by (simp add: hand_value_def)
    qed
    with c True show ?thesis by (intro exI [of _ cards]) simp
  qed
next
  assume "list_all valid_card (draws w) \<and> sends_left w = None
        \<and> 17 \<le> dealer_sum + 2 * int (length (draws w))"
  then show "\<exists>d' w'. dealer_phase player_sum dealer_sum w = (Inr d', w')"
    using dealer_loop_returns [of w dealer_sum]
    by (auto simp: dealer_phase_def io_return_def)
qed


theorem dealer_draws_to_17_witness:
  "dealer_phase 19 12 (fresh_world [(3, 1), (6, 0), (9, 2)] [])
     = (Inr 21, \<lparr>draws = [(9, 2)], rx = [],
                 tx = [payload_packet 0 3 1, payload_packet 0 6 0], sends_left = None\<rparr>)
   \<and> list_all valid_card (draws (fresh_world [(3, 1), (6, 0), (9, 2)] []))
   \<and> sends_left (fresh_world [(3, 1), (6, 0), (9, 2)] []) = None
   \<and> (\<exists>cards. [(3, 1), (6, 0), (9, 2)] = cards @ [(9, 2)]
         \<and> 21 = 12 + hand_value cards)"
  using dealer_draws_to_17 [where player_sum = 19 and dealer_sum = 12
      and w = "fresh_world [(3, 1), (6, 0), (9, 2)] []" and d' = 21
      and w' = "\<lparr>draws = [(9, 2)], rx = [],
                 tx = [payload_packet 0 3 1, payload_packet 0 6 0], sends_left = None\<rparr>"]
  by (simp add: round_eval valid_card_def)

section \<open>One outcome message, sent last (C7)\<close>

lemma decide_outcome_range:
  "decide_outcome p d = 1 \<or> decide_outcome p d = 2 \<or> decide_outcome p d = 3"
  by (simp add: decide_outcome_def)

lemma dealer_phase_trace:
  assumes "dealer_phase p d w = (Inr d', w')"
  shows "\<exists>cards. draws w = cards @ draws w' \<and> rx w' = rx w
           \<and> tx w' = tx w @ map card_packet cards
           \<and> (21 < p \<longrightarrow> cards = [])"
proof (cases "p \<le> 21")
  case True
  with assms have "dealer_loop d w = (Inr d', w')" by (simp add: dealer_phase_def)
  from dealer_loop_trace [OF this] True show ?thesis by auto
next
  case False
  with assms have "w' = w" by (simp add: dealer_phase_def io_return_def)
  with False show ?thesis by simp
qed

lemma play_round_trace:
  assumes "play_round w = (Inr result, w')"
  shows "\<exists>cards. tx w' = tx w @ map card_packet cards @ [payload_packet result 0 0]
           \<and> fits_B result"
proof -
  from assms obtain p d w4 where
    fs: "final_sums w = (Inr (p, d), w4)" and res: "result = decide_outcome p d"
    and sp: "send_payload result 0 0 w4 = (Inr (), w')"
    by (auto simp: play_round_Inr)
  from fs obtain p0 d0 hr hs w1 w2 w3 where
    idl: "initial_deal w = (Inr (p0, d0, hr, hs), w1)"
    and pp: "player_phase p0 w1 = (Inr p, w2)"
    and rv: "send_payload 0 hr hs w2 = (Inr (), w3)"
    and dp: "dealer_phase p d0 w3 = (Inr d, w4)"
    by (auto simp: final_sums_Inr)
  from initial_deal_Inr [OF idl] obtain c1 c2 c3 where
    i: "tx w1 = tx w @ map card_packet [c1, c2, c3]" by blast
  from player_phase_trace [OF pp] obtain pcards where
    pl: "tx w2 = tx w1 @ map card_packet pcards" by blast
  from dealer_phase_trace [OF dp] obtain dcards where
    dl: "tx w4 = tx w3 @ map card_packet dcards" by blast
  note r = send_payload_Inr [OF rv] and f = send_payload_Inr [OF sp]
  have "tx w' = tx w @ map card_packet ([c1, c2, c3] @ pcards @ [(hr, hs)] @ dcards)
                  @ [payload_packet result 0 0]"
    using i pl dl r f by (simp add: card_packet_def)
  with f show ?thesis
    by (intro exI [of _ "[c1, c2, c3] @ pcards @ [(hr, hs)] @ dcards"]) simp
qed

lemma unpack_card_packet:
  "\<exists>r_h r_l suit. unpack_IBB3B (card_packet c) = Inr (MAGIC_COOKIE, PAYLOAD_TYPE, 0, r_h, r_l, suit)"
proof -
  let ?d = "card_packet c"
  have l: "length ?d = 9" by (simp add: card_packet_def payload_packet_def)
  have 1: "get_I ?d 0 = MAGIC_COOKIE"
    unfolding card_packet_def payload_packet_def using fits_cookie by (rule get_put_I)
  have 2: "get_B ?d 4 = PAYLOAD_TYPE" "get_B ?d 5 = 0"
    by (simp_all add: card_packet_def payload_packet_def get_B_def nth_append put_B_def
          PAYLOAD_TYPE_def)
  show ?thesis by (simp add: unpack_IBB3B_def l 1 2)
qed

text \<open>
  C7. When \<open>play_round\<close> returns, what it has sent is a sequence of card packets, each
  with outcome code 0, followed by one last packet whose outcome code is the returned
  result, 1, 2 or 3, and whose rank and suit fields are 0; the client's \<open>safe_recv\<close>
  reads that last packet as \<open>(result, 0, 0)\<close>.
\<close>

theorem one_outcome_message_last:
  assumes "play_round w = (Inr result, w')"
  shows "(result = 1 \<or> result = 2 \<or> result = 3)
       \<and> (\<exists>cards. tx w' = tx w @ map card_packet cards @ [payload_packet result 0 0]
             \<and> (\<forall>m \<in> set (map card_packet cards).
                   \<exists>r_h r_l suit. unpack_IBB3B m
                     = Inr (MAGIC_COOKIE, PAYLOAD_TYPE, 0, r_h, r_l, suit))
             \<and> unpack_IBB3B (payload_packet result 0 0)
                   = Inr (MAGIC_COOKIE, PAYLOAD_TYPE, result, 0, 0, 0)
             \<and> safe_recv (Data (payload_packet result 0 0)) = (result, 0, 0))"
proof -
  from assms have "\<exists>p d. result = decide_outcome p d" by (auto simp: play_round_Inr)
  then have rng: "result = 1 \<or> result = 2 \<or> result = 3"
    using decide_outcome_range by auto
  then have fr: "fits_B result" by (auto simp: fits_B_def)
  from play_round_trace [OF assms] obtain cards where
    c: "tx w' = tx w @ map card_packet cards @ [payload_packet result 0 0]" by blast
  have u: "unpack_IBB3B (payload_packet result 0 0)
             = Inr (MAGIC_COOKIE, PAYLOAD_TYPE, result, 0, 0, 0)"
    using unpack_payload_packet [of result 0 0] fr by (simp add: fits_B_def)
  have s: "safe_recv (Data (payload_packet result 0 0)) = (result, 0, 0)"
    using fr by (intro safe_recv_payload_packet) (simp_all add: fits_B_def fits_H_def)
  have "\<forall>m \<in> set (map card_packet cards).
          \<exists>r_h r_l suit. unpack_IBB3B m = Inr (MAGIC_COOKIE, PAYLOAD_TYPE, 0, r_h, r_l, suit)"
    using unpack_card_packet by auto
  with rng c u s show ?thesis by blast
qed



theorem one_outcome_message_last_witness:
  "play_round (fresh_world [(10, 0), (9, 1), (10, 2), (8, 3), (5, 1)]
                 [Data hit_packet, Data stand_packet])
     = (Inr 2, \<lparr>draws = [], rx = [Data stand_packet],
                tx = map card_packet [(10, 0), (9, 1), (10, 2), (5, 1), (8, 3)]
                       @ [payload_packet 2 0 0],
                sends_left = None\<rparr>)
   \<and> unpack_IBB3B (payload_packet 2 0 0) = Inr (MAGIC_COOKIE, PAYLOAD_TYPE, 2, 0, 0, 0)
   \<and> safe_recv (Data (payload_packet 2 0 0)) = (2, 0, 0)"
  using one_outcome_message_last
    [of "fresh_world [(10, 0), (9, 1), (10, 2), (8, 3), (5, 1)]
           [Data hit_packet, Data stand_packet]" 2
        "\<lparr>draws = [], rx = [Data stand_packet],
          tx = map card_packet [(10, 0), (9, 1), (10, 2), (5, 1), (8, 3)]
                 @ [payload_packet 2 0 0],
          sends_left = None\<rparr>"]
  by (auto simp add: round_eval decision_eval card_packet_def)

section \<open>A bust ends the round (C6)\<close>

text \<open>
  C6. Let the player phase end with a total above 21, and let the two sends that follow
  succeed. Then every decision read in the player phase was a hit and each was answered by
  one card, so no decision is read after the hit that takes the total above 21 (when the
  first two cards total at most 21 there is such a hit, and the total before it was at
  most 21); after the player phase nothing more is read and nothing more is drawn, so the
  dealer loop is skipped: the hidden card and the outcome are sent, and the round
  returns 2.
\<close>

theorem bust_ends_round:
  assumes "initial_deal w = (Inr (p0, d0, hr, hs), w1)"
      and "player_phase p0 w1 = (Inr p, w2)"
      and "21 < p"
      and "sends_left w2 = None" and "fits_B hs"
  shows "play_round w
           = (Inr 2, w2\<lparr>tx := tx w2 @ [card_packet (hr, hs), payload_packet 2 0 0]\<rparr>)
       \<and> (\<exists>evs cards. rx w1 = evs @ rx w2 \<and> draws w1 = cards @ draws w2
             \<and> length evs = length cards \<and> list_all is_hit evs
             \<and> p = p0 + hand_value cards
             \<and> (p0 \<le> 21 \<longrightarrow> cards \<noteq> [] \<and> p0 + hand_value (butlast cards) \<le> 21))"
proof -
  let ?w3 = "w2\<lparr>tx := tx w2 @ [payload_packet 0 hr hs]\<rparr>"
  let ?w5 = "?w3\<lparr>tx := tx ?w3 @ [payload_packet 2 0 0]\<rparr>"
  have rv: "send_payload 0 hr hs w2 = (Inr (), ?w3)"
    using assms(4,5) by (intro send_payload_open) (simp_all add: fits_B_def)
  have dp: "dealer_phase p d0 ?w3 = (Inr d0, ?w3)"
    using assms(3) by (simp add: dealer_phase_def io_return_def)
  have fs: "final_sums w = (Inr (p, d0), ?w3)"
    unfolding final_sums_Inr using assms(1,2) rv dp by blast
  have res: "decide_outcome p d0 = 2" using assms(3) by (simp add: decide_outcome_def)
  have fin: "send_payload 2 0 0 ?w3 = (Inr (), ?w5)"
    using assms(4) by (intro send_payload_open) (simp_all add: fits_B_def)
  have "play_round w = (Inr 2, ?w5)"
    unfolding play_round_Inr using fs res fin by auto
  then have 1: "play_round w
           = (Inr 2, w2\<lparr>tx := tx w2 @ [card_packet (hr, hs), payload_packet 2 0 0]\<rparr>)"
    by (simp add: card_packet_def)
  from player_phase_trace [OF assms(2)] assms(3)
  obtain evs cards where t: "rx w1 = evs @ rx w2" "draws w1 = cards @ draws w2"
      "p = p0 + hand_value cards"
      "\<forall>k < length cards. p0 + hand_value (take k cards) \<le> 21"
      "list_all is_hit (take (length cards) evs)" "length evs = length cards"
    by auto
  have "cards \<noteq> [] \<and> p0 + hand_value (butlast cards) \<le> 21" if "p0 \<le> 21"
  proof -
    from that assms(3) t(3) have ne: "cards \<noteq> []" by (auto simp: hand_value_def)
    then have "length cards - 1 < length cards" by simp
    with t(4) have "p0 + hand_value (take (length cards - 1) cards) \<le> 21" by blast
    with ne show ?thesis by (simp add: butlast_conv_take)
  qed
  with t have "\<exists>evs cards. rx w1 = evs @ rx w2 \<and> draws w1 = cards @ draws w2
             \<and> length evs = length cards \<and> list_all is_hit evs
             \<and> p = p0 + hand_value cards
             \<and> (p0 \<le> 21 \<longrightarrow> cards \<noteq> [] \<and> p0 + hand_value (butlast cards) \<le> 21)"
    by (intro exI [of _ evs] exI [of _ cards]) simp
  with 1 show ?thesis by blast
qed


theorem bust_ends_round_witness:
  "initial_deal (fresh_world [(10, 0), (9, 1), (10, 2), (8, 3), (5, 1)]
                   [Data hit_packet, Data stand_packet])
     = (Inr (19, 18, 8, 3),
        \<lparr>draws = [(5, 1)], rx = [Data hit_packet, Data stand_packet],
         tx = map card_packet [(10, 0), (9, 1), (10, 2)], sends_left = None\<rparr>)
   \<and> player_phase 19
        \<lparr>draws = [(5, 1)], rx = [Data hit_packet, Data stand_packet],
         tx = map card_packet [(10, 0), (9, 1), (10, 2)], sends_left = None\<rparr>
     = (Inr 24,
        \<lparr>draws = [], rx = [Data stand_packet],
         tx = map card_packet [(10, 0), (9, 1), (10, 2), (5, 1)], sends_left = None\<rparr>)
   \<and> play_round (fresh_world [(10, 0), (9, 1), (10, 2), (8, 3), (5, 1)]
                   [Data hit_packet, Data stand_packet])
     = (Inr 2,
        \<lparr>draws = [], rx = [Data stand_packet],
         tx = map card_packet [(10, 0), (9, 1), (10, 2), (5, 1), (8, 3)]
                @ [payload_packet 2 0 0],
         sends_left = None\<rparr>)"
  using bust_ends_round
    [of "fresh_world [(10, 0), (9, 1), (10, 2), (8, 3), (5, 1)]
           [Data hit_packet, Data stand_packet]"
        19 18 8 3
        "\<lparr>draws = [(5, 1)], rx = [Data hit_packet, Data stand_packet],
          tx = map card_packet [(10, 0), (9, 1), (10, 2)], sends_left = None\<rparr>"
        24
        "\<lparr>draws = [], rx = [Data stand_packet],
          tx = map card_packet [(10, 0), (9, 1), (10, 2), (5, 1)], sends_left = None\<rparr>"]
  by (simp add: round_eval decision_eval card_packet_def)

section \<open>The cookie of a Decision message (C2)\<close>

lemma forged_hit_packet_decision:
  "unpack_IB5s forged_hit_packet = Inr (0, 4, ascii_bytes ''Hittt'')"
  by (simp add: unpack_IB5s_def forged_hit_packet_def get_I_def get_B_def get_s_def
        ascii_bytes_def)

lemma forged_hit_nonempty: "forged_hit_packet \<noteq> []"
  by (simp add: forged_hit_packet_def)

lemma get_I_take: "4 \<le> n \<Longrightarrow> get_I (take n data) 0 = get_I data 0"
  by (simp add: get_I_def)

lemma request_cookie_checked:
  "get_I data 0 \<noteq> MAGIC_COOKIE \<Longrightarrow> request_of data = None"
  by (simp add: request_of_def unpack_IBB32s_def get_I_take)

lemma offer_cookie_checked:
  "get_I data 0 \<noteq> MAGIC_COOKIE \<Longrightarrow> offer_of data = None"
  by (simp add: offer_of_def unpack_IBH32s_def get_I_take)

lemma payload_cookie_checked:
  "get_I data 0 \<noteq> MAGIC_COOKIE \<Longrightarrow> safe_recv (Data data) = (0, 0, 0)"
  by (simp add: safe_recv_def unpack_IBB3B_def)

text \<open>
  C2. The Request, the Offer and the Round-Payload are dropped when their cookie is wrong
  (the three lemmas above), but the player phase unpacks a Decision with
  \<open>_, _, decision_bytes = struct.unpack(...)\<close> and never compares its cookie: a
  Decision whose cookie is 0 and whose action is \<open>Hittt\<close> is acted on, the server deals
  the card (2, 1) and sends it.
\<close>

theorem decision_cookie_not_checked:
  "get_I forged_hit_packet 0 = 0 \<and> MAGIC_COOKIE \<noteq> 0
   \<and> play_round (fresh_world [(10, 0), (9, 1), (10, 2), (8, 3), (2, 1)]
                   [Data forged_hit_packet, Data stand_packet])
     = (Inr 3, \<lparr>draws = [], rx = [],
                tx = map card_packet [(10, 0), (9, 1), (10, 2), (2, 1), (8, 3)]
                       @ [payload_packet 3 0 0],
                sends_left = None\<rparr>)"
  by (simp add: round_eval decision_eval forged_hit_packet_decision forged_hit_nonempty
        card_packet_def)
     (simp add: get_I_def forged_hit_packet_def MAGIC_COOKIE_def)

section \<open>Failed decision reads (C8)\<close>

lemma conn_recv_tx: "conn_recv w = (r, w') \<Longrightarrow> tx w' = tx w"
  by (auto simp: conn_recv_def split: list.splits recv_event.splits)

lemma player_phase_recv_raises:
  assumes "p \<le> 21" "rx w = RecvRaises # evs"
  shows "player_phase p w = (Inl (Raised SocketError), w\<lparr>rx := evs\<rparr>)"
  using assms by (simp add: player_phase.simps [of p w] conn_recv_def)

lemma player_phase_empty_read:
  assumes "p \<le> 21" "rx w = Data [] # evs"
  shows "player_phase p w = (Inr p, w\<lparr>rx := evs\<rparr>)"
  using assms by (simp add: player_phase.simps [of p w] conn_recv_def)

lemma player_phase_hit_step:
  assumes "p \<le> 21" "rx w = ev # evs" "is_hit ev"
    and "deal_card (w\<lparr>rx := evs\<rparr>) = (Inr (r, s, v), w2)"
    and "send_payload 0 r s w2 = (Inr (), w3)"
  shows "player_phase p w = player_phase (p + v) w3"
proof -
  from assms(3) obtain data c t b where ev: "ev = Data data" "data \<noteq> []"
      "unpack_IB5s data = Inr (c, t, b)" "decision_of b = Inr (str_lit ''Hittt'')"
    by (auto simp: is_hit_def split: recv_event.splits sum.splits)
  with assms(1,2,4,5) show ?thesis
    by (simp add: player_phase.simps [of p w] conn_recv_def)
qed

lemma player_phase_stop_tx:
  "player_phase p w = (Inl stp, w') \<Longrightarrow> \<exists>cards. tx w' = tx w @ map card_packet cards"
proof (induction "length (rx w)" arbitrary: p w rule: less_induct)
  case less
  from less.prems have le: "p \<le> 21" by (auto simp: player_phase.simps [of p w] split: if_splits)
  obtain r w1 where cr: "conn_recv w = (r, w1)" by (cases "conn_recv w")
  note t1 = conn_recv_tx [OF cr]
  show ?case
  proof (cases r)
    case (Inl e)
    with less.prems le cr have "w' = w1" by (simp add: player_phase.simps [of p w])
    with t1 show ?thesis by (intro exI [of _ "[]"]) simp
  next
    case (Inr data)
    note rr = conn_recv_Inr [OF cr [unfolded Inr]]
    show ?thesis
    proof (cases "is_hit (Data data)")
      case False
      with less.prems le cr Inr have "w' = w1"
        by (auto simp: player_phase.simps [of p w] is_hit_def
                 split: sum.splits prod.splits if_splits)
      with t1 show ?thesis by (intro exI [of _ "[]"]) simp
    next
      case True
      then obtain c t b where u: "data \<noteq> []" "unpack_IB5s data = Inr (c, t, b)"
          "decision_of b = Inr (str_lit ''Hittt'')"
        by (auto simp: is_hit_def split: sum.splits)
      with le cr Inr have eq: "player_phase p w =
          (case deal_card w1 of
             (Inl e, w2) \<Rightarrow> (Inl e, w2)
           | (Inr (r, s, v), w2) \<Rightarrow>
               (case send_payload 0 r s w2 of
                  (Inl e, w3) \<Rightarrow> (Inl e, w3)
                | (Inr _, w3) \<Rightarrow> player_phase (p + v) w3))"
        by (simp add: player_phase.simps [of p w])
      obtain dr w2 where dc: "deal_card w1 = (dr, w2)" by (cases "deal_card w1")
      show ?thesis
      proof (cases dr)
        case (Inl e)
        with less.prems eq dc have "w' = w2" by simp
        moreover from deal_card_Inl [OF dc [unfolded Inl]] have "w2 = w1" by simp
        ultimately show ?thesis using t1 by (intro exI [of _ "[]"]) simp
      next
        case dInr: (Inr card)
        obtain r s v where card: "card = (r, s, v)" by (cases card)
        note d = deal_card_Inr [OF dc [unfolded dInr card]]
        obtain sr w3 where sp: "send_payload 0 r s w2 = (sr, w3)"
          by (cases "send_payload 0 r s w2")
        show ?thesis
        proof (cases sr)
          case (Inl e)
          with less.prems eq dc dInr card sp have "w' = w3" by simp
          moreover from send_payload_Inl [OF sp [unfolded Inl]] have "w3 = w2" by simp
          ultimately show ?thesis using t1 d by (intro exI [of _ "[]"]) simp
        next
          case sInr: (Inr u)
          note s = send_payload_Inr [OF sp [unfolded sInr]]
          from less.prems eq dc dInr card sp sInr
          have rec: "player_phase (p + v) w3 = (Inl stp, w')" by simp
          have "length (rx w3) < length (rx w)" using rr d s by simp
          from less.hyps [OF this rec] obtain cards where
            "tx w' = tx w3 @ map card_packet cards" by blast
          then show ?thesis using s d t1
            by (intro exI [of _ "(r, s) # cards"]) (simp add: card_packet_def)
        qed
      qed
    qed
  qed
qed


lemma sends_only_cardsI:
  "(\<And>w r w'. m w = (r, w') \<Longrightarrow> \<exists>cards. tx w' = tx w @ map card_packet cards)
    \<Longrightarrow> sends_only_cards m"
  by (auto simp: sends_only_cards_def)

lemma sends_only_cardsD:
  "sends_only_cards m \<Longrightarrow> m w = (r, w') \<Longrightarrow> \<exists>cards. tx w' = tx w @ map card_packet cards"
  by (auto simp: sends_only_cards_def)

lemma only_cards_return: "sends_only_cards (io_return a)"
  by (rule sends_only_cardsI) (auto simp: io_return_def intro: exI [of _ "[]"])

lemma only_cards_deal: "sends_only_cards deal_card"
  by (rule sends_only_cardsI)
     (auto simp: deal_card_def split: list.splits intro: exI [of _ "[]"])

lemma only_cards_send: "sends_only_cards (send_payload 0 r s)"
proof (rule sends_only_cardsI)
  fix w res w' assume a: "send_payload 0 r s w = (res, w')"
  show "\<exists>cards. tx w' = tx w @ map card_packet cards"
  proof (cases res)
    case (Inl e)
    with a send_payload_Inl have "w' = w" by blast
    then show ?thesis by (intro exI [of _ "[]"]) simp
  next
    case (Inr u)
    with a send_payload_Inr have "tx w' = tx w @ [payload_packet 0 r s]" by blast
    then show ?thesis by (intro exI [of _ "[(r, s)]"]) (simp add: card_packet_def)
  qed
qed

lemma only_cards_bind:
  assumes "sends_only_cards m" and "\<And>a. sends_only_cards (f a)"
  shows "sends_only_cards (io_bind m f)"
proof (rule sends_only_cardsI)
  fix w r w' assume a: "io_bind m f w = (r, w')"
  obtain r1 w1 where m: "m w = (r1, w1)" by (cases "m w")
  from sends_only_cardsD [OF assms(1) m] obtain c1 where
    c1: "tx w1 = tx w @ map card_packet c1" by blast
  show "\<exists>cards. tx w' = tx w @ map card_packet cards"
  proof (cases r1)
    case (Inl e)
    with a m have "w' = w1" by (simp add: io_bind_def)
    with c1 show ?thesis by blast
  next
    case (Inr x)
    with a m have "f x w1 = (r, w')" by (simp add: io_bind_def)
    from sends_only_cardsD [OF assms(2) this] obtain c2 where
      "tx w' = tx w1 @ map card_packet c2" by blast
    with c1 show ?thesis by (intro exI [of _ "c1 @ c2"]) simp
  qed
qed

lemma only_cards_player: "sends_only_cards (player_phase p)"
proof (rule sends_only_cardsI)
  fix w r w' assume a: "player_phase p w = (r, w')"
  show "\<exists>cards. tx w' = tx w @ map card_packet cards"
  proof (cases r)
    case (Inl e)
    with a player_phase_stop_tx show ?thesis by blast
  next
    case (Inr x)
    with a player_phase_trace [of p w x w'] show ?thesis by blast
  qed
qed

lemma dealer_loop_tx:
  "dealer_loop d w = (res, w') \<Longrightarrow> \<exists>cards. tx w' = tx w @ map card_packet cards"
proof (induction "length (draws w)" arbitrary: d w rule: less_induct)
  case less
  show ?case
  proof (cases "d < 17")
    case False
    with less.prems have "w' = w" by (simp add: dealer_loop.simps [of d w])
    then show ?thesis by (intro exI [of _ "[]"]) simp
  next
    case True
    obtain dr w1 where dc: "deal_card w = (dr, w1)" by (cases "deal_card w")
    show ?thesis
    proof (cases dr)
      case (Inl e)
      with less.prems True dc have "w' = w1" by (simp add: dealer_loop.simps [of d w])
      moreover from deal_card_Inl [OF dc [unfolded Inl]] have "w1 = w" by simp
      ultimately show ?thesis by (intro exI [of _ "[]"]) simp
    next
      case dInr: (Inr card)
      obtain r s v where card: "card = (r, s, v)" by (cases card)
      note dd = deal_card_Inr [OF dc [unfolded dInr card]]
      obtain sr w2 where sp: "send_payload 0 r s w1 = (sr, w2)"
        by (cases "send_payload 0 r s w1")
      show ?thesis
      proof (cases sr)
        case (Inl e)
        with less.prems True dc dInr card sp have "w' = w2"
          by (simp add: dealer_loop.simps [of d w])
        moreover from send_payload_Inl [OF sp [unfolded Inl]] have "w2 = w1" by simp
        ultimately show ?thesis using dd by (intro exI [of _ "[]"]) simp
      next
        case sInr: (Inr u)
        note s = send_payload_Inr [OF sp [unfolded sInr]]
        from less.prems True dc dInr card sp sInr
        have rec: "dealer_loop (d + v) w2 = (res, w')"
          by (simp add: dealer_loop.simps [of d w])
        have "length (draws w2) < length (draws w)" using dd s by simp
        from less.hyps [OF this rec] obtain cards where
          "tx w' = tx w2 @ map card_packet cards" by blast
        then show ?thesis using s dd
          by (intro exI [of _ "(r, s) # cards"]) (simp add: card_packet_def)
      qed
    qed
  qed
qed

lemma only_cards_dealer: "sends_only_cards (dealer_phase p d)"
  unfolding dealer_phase_def
  by (auto intro: only_cards_return sends_only_cardsI dealer_loop_tx)

lemma only_cards_prod:
  "(\<And>a b. sends_only_cards (f a b)) \<Longrightarrow> sends_only_cards (case x of (a, b) \<Rightarrow> f a b)"
  by (cases x) simp

lemma only_cards_initial_deal: "sends_only_cards initial_deal"
  unfolding initial_deal_def
  by (intro only_cards_bind only_cards_prod only_cards_deal only_cards_send only_cards_return)

lemma only_cards_final_sums: "sends_only_cards final_sums"
  unfolding final_sums_def
  by (intro only_cards_bind only_cards_prod only_cards_initial_deal only_cards_player
        only_cards_dealer only_cards_send only_cards_return)

lemma play_round_stop_tx:
  assumes "play_round w = (Inl stp, w')"
  shows "\<exists>cards. tx w' = tx w @ map card_packet cards"
proof -
  from assms consider (a) "final_sums w = (Inl stp, w')"
    | (b) p d w4 where "final_sums w = (Inr (p, d), w4)"
        "send_payload (decide_outcome p d) 0 0 w4 = (Inl stp, w')"
    by (auto simp: play_round_def io_bind_Inl io_return_eq Let_def)
  then show ?thesis
  proof cases
    case a
    with only_cards_final_sums show ?thesis by (rule sends_only_cardsD)
  next
    case b
    from send_payload_Inl [OF b(2)] have "w' = w4" .
    with sends_only_cardsD [OF only_cards_final_sums b(1)] show ?thesis by simp
  qed
qed

lemma play_round_player_stop:
  assumes "initial_deal w = (Inr (p0, d0, hr, hs), w1)"
    and "player_phase p0 w1 = (Inl stp, w2)"
  shows "play_round w = (Inl stp, w2)"
  using assms by (simp add: play_round_def final_sums_def io_bind_def)

lemma play_rounds_stop:
  "play_round w = (Inl stp, w') \<Longrightarrow> play_rounds (Suc n) w st = (Inl stp, w', st)"
  by simp

lemma handle_client_failed:
  assumes "conn_recv c = (Inr req, w)" "request_of req = Some (rounds, name)"
    and "play_rounds (nat rounds) w st = (Inl (Raised e), w', st')"
  shows "handle_client c st = (Inr (Failed e), w', st')"
  using assms by (simp add: handle_client_def)

lemma request_bytes_parsed:
  assumes "fits_B n"
  shows "request_packet n (ascii_bytes TEAM_NAME) = Inr (request_bytes n)"
    and "request_of (request_bytes n) = Some (n, ascii_bytes TEAM_NAME)"
proof -
  have len: "length (ascii_bytes TEAM_NAME) = 32"
    by (simp add: ascii_bytes_def TEAM_NAME_def ljust_def)
  show "request_packet n (ascii_bytes TEAM_NAME) = Inr (request_bytes n)"
    using assms fits_cookie
    by (simp add: request_packet_def pack_IBB32s_def request_bytes_def fits_B_def)
  have u: "unpack_IBB32s (request_bytes n) = Inr (MAGIC_COOKIE, 3, n, ascii_bytes TEAM_NAME)"
    unfolding request_bytes_def using assms len
    by (intro unpack_pack_IBB32s fits_cookie) (simp_all add: fits_B_def)
  have l: "length (request_bytes n) = 38" by (simp add: request_bytes_def)
  have ne: "request_bytes n \<noteq> []" by (simp add: request_bytes_def put_B_def)
  show "request_of (request_bytes n) = Some (n, ascii_bytes TEAM_NAME)"
    by (simp add: request_of_def l ne u REQUEST_TYPE_def)
qed

lemma truncated_hit:
  "unpack_IB5s (take 9 hit_packet) = Inl StructError" "take 9 hit_packet \<noteq> []"
  by (simp_all add: hit_packet_def unpack_IB5s_def)

text \<open>
  C8, as stated, fails: when the first decision read of a round yields no data, the round
  goes on. The server sends the hidden card and the outcome 3, \<open>play_round\<close> returns 3,
  and the session records it (\<open>total_losses\<close> becomes 1) and finishes.
\<close>

theorem empty_read_round_goes_on:
  "play_round (fresh_world [(10, 0), (9, 1), (10, 2), (8, 3)] [Data []])
     = (Inr 3,
        \<lparr>draws = [], rx = [],
         tx = map card_packet [(10, 0), (9, 1), (10, 2), (8, 3)] @ [payload_packet 3 0 0],
         sends_left = None\<rparr>)
   \<and> handle_client
        (fresh_world [(10, 0), (9, 1), (10, 2), (8, 3)] [Data (request_bytes 1), Data []])
        init_stats
     = (Inr Finished,
        \<lparr>draws = [], rx = [],
         tx = map card_packet [(10, 0), (9, 1), (10, 2), (8, 3)] @ [payload_packet 3 0 0],
         sends_left = None\<rparr>,
        \<lparr>total_wins = 0, total_losses = 1, total_ties = 0\<rparr>)"
  by (simp add: handle_client_def request_bytes_parsed fits_B_def round_eval card_packet_def
        update_global_stats_def count_result_def total_games_def init_stats_def)

text \<open>
  C8, amended. A decision read that raises aborts the round and the session: when
  \<open>recv\<close> raises, or returns a non-empty buffer that is not exactly 10 bytes long (a
  truncated read), the player phase raises at that read, in whatever iteration of its loop
  (a hit leads to the next iteration); \<open>play_round\<close> then raises with the connection as
  it was at that read, so nothing more is sent; all that a round that does not return has
  sent are card packets, no outcome; the session's loop stops there with the statistics
  unchanged, and \<open>handle_client\<close> ends the session. A decision read that yields no data
  does not raise: it ends the player phase with the total unchanged, as a \<open>Stand\<close> does.
\<close>

theorem raised_read_aborts_session:
  "(p \<le> 21 \<and> rx w = RecvRaises # evs \<longrightarrow>
      player_phase p w = (Inl (Raised SocketError), w\<lparr>rx := evs\<rparr>))
   \<and> (p \<le> 21 \<and> rx w = Data data # evs \<and> data \<noteq> [] \<and> length data \<noteq> 10 \<longrightarrow>
      player_phase p w = (Inl (Raised StructError), w\<lparr>rx := evs\<rparr>))
   \<and> (p \<le> 21 \<and> rx w = Data [] # evs \<longrightarrow> player_phase p w = (Inr p, w\<lparr>rx := evs\<rparr>))
   \<and> (p \<le> 21 \<and> rx w = ev # evs \<and> is_hit ev
        \<and> deal_card (w\<lparr>rx := evs\<rparr>) = (Inr (r, s, v), wd)
        \<and> send_payload 0 r s wd = (Inr (), ws) \<longrightarrow>
      player_phase p w = player_phase (p + v) ws)
   \<and> (initial_deal w0 = (Inr (p0, d0, hr, hs), w1) \<and> player_phase p0 w1 = (Inl stp, w2) \<longrightarrow>
      play_round w0 = (Inl stp, w2))
   \<and> (play_round w0 = (Inl stp, w2) \<longrightarrow>
      (\<exists>cards. tx w2 = tx w0 @ map card_packet cards)
      \<and> play_rounds (Suc n) w0 st = (Inl stp, w2, st))
   \<and> (conn_recv c = (Inr req, w0) \<and> request_of req = Some (rounds, name)
        \<and> play_rounds (nat rounds) w0 st = (Inl (Raised e), w2, st') \<longrightarrow>
      handle_client c st = (Inr (Failed e), w2, st'))"
  using player_phase_recv_raises [of p w evs] player_phase_short_read [of p w data evs]
    player_phase_empty_read [of p w evs] player_phase_hit_step [of p w ev evs r s v wd ws]
    play_round_player_stop [of w0 p0 d0 hr hs w1 stp w2]
    play_round_stop_tx [of w0 stp w2] play_rounds_stop [of w0 stp w2 n st]
    handle_client_failed [of c req w0 rounds name st e w2 st']
  by (intro conjI impI) blast+

theorem raised_read_aborts_session_witness:
  "player_phase 12
     \<lparr>draws = [], rx = [Data (take 9 hit_packet), Data stand_packet],
      tx = map card_packet [(5, 0), (4, 1), (10, 2), (3, 1)], sends_left = None\<rparr>
     = (Inl (Raised StructError),
        \<lparr>draws = [], rx = [Data stand_packet],
         tx = map card_packet [(5, 0), (4, 1), (10, 2), (3, 1)], sends_left = None\<rparr>)
   \<and> play_round (fresh_world [(5, 0), (4, 1), (10, 2), (8, 3), (3, 1)]
                   [Data hit_packet, Data (take 9 hit_packet), Data stand_packet])
     = (Inl (Raised StructError),
        \<lparr>draws = [], rx = [Data stand_packet],
         tx = map card_packet [(5, 0), (4, 1), (10, 2), (3, 1)], sends_left = None\<rparr>)
   \<and> handle_client
        (fresh_world [(5, 0), (4, 1), (10, 2), (8, 3), (3, 1)]
           [Data (request_bytes 2), Data hit_packet, Data (take 9 hit_packet),
            Data stand_packet])
        init_stats
     = (Inr (Failed StructError),
        \<lparr>draws = [], rx = [Data stand_packet],
         tx = map card_packet [(5, 0), (4, 1), (10, 2), (3, 1)], sends_left = None\<rparr>,
        init_stats)
   \<and> player_phase 12 (fresh_world [] [RecvRaises])
     = (Inl (Raised SocketError), fresh_world [] [])
   \<and> player_phase 12 (fresh_world [] [Data []]) = (Inr 12, fresh_world [] [])
   \<and> is_hit (Data hit_packet)
   \<and> initial_deal (fresh_world [(5, 0), (4, 1), (10, 2), (8, 3), (3, 1)]
                     [Data hit_packet, Data (take 9 hit_packet), Data stand_packet])
     = (Inr (9, 18, 8, 3),
        \<lparr>draws = [(3, 1)],
         rx = [Data hit_packet, Data (take 9 hit_packet), Data stand_packet],
         tx = map card_packet [(5, 0), (4, 1), (10, 2)], sends_left = None\<rparr>)
   \<and> player_phase 9
        \<lparr>draws = [(3, 1)],
         rx = [Data hit_packet, Data (take 9 hit_packet), Data stand_packet],
         tx = map card_packet [(5, 0), (4, 1), (10, 2)], sends_left = None\<rparr>
     = player_phase 12
        \<lparr>draws = [], rx = [Data (take 9 hit_packet), Data stand_packet],
         tx = map card_packet [(5, 0), (4, 1), (10, 2), (3, 1)], sends_left = None\<rparr>"
  using raised_read_aborts_session
    [where p = 9
       and w = "\<lparr>draws = [(3, 1)],
                 rx = [Data hit_packet, Data (take 9 hit_packet), Data stand_packet],
                 tx = map card_packet [(5, 0), (4, 1), (10, 2)], sends_left = None\<rparr>"
       and ev = "Data hit_packet" and evs = "[Data (take 9 hit_packet), Data stand_packet]"
       and r = 3 and s = 1 and v = 3
       and wd = "\<lparr>draws = [], rx = [Data (take 9 hit_packet), Data stand_packet],
                  tx = map card_packet [(5, 0), (4, 1), (10, 2)], sends_left = None\<rparr>"
       and ws = "\<lparr>draws = [], rx = [Data (take 9 hit_packet), Data stand_packet],
                  tx = map card_packet [(5, 0), (4, 1), (10, 2), (3, 1)],
                  sends_left = None\<rparr>"]
    raised_read_aborts_session
    [where p = 12
       and ?p0.0 = 9 and ?d0.0 = 18 and hr = 8 and hs = 3
       and ?w1.0 = "\<lparr>draws = [(3, 1)],
                     rx = [Data hit_packet, Data (take 9 hit_packet), Data stand_packet],
                     tx = map card_packet [(5, 0), (4, 1), (10, 2)], sends_left = None\<rparr>"
       and w = "\<lparr>draws = [], rx = [Data (take 9 hit_packet), Data stand_packet],
                 tx = map card_packet [(5, 0), (4, 1), (10, 2), (3, 1)],
                 sends_left = None\<rparr>"
       and data = "take 9 hit_packet" and evs = "[Data stand_packet]"
       and ?w0.0 = "fresh_world [(5, 0), (4, 1), (10, 2), (8, 3), (3, 1)]
                     [Data hit_packet, Data (take 9 hit_packet), Data stand_packet]"
       and stp = "Raised StructError"
       and ?w2.0 = "\<lparr>draws = [], rx = [Data stand_packet],
                     tx = map card_packet [(5, 0), (4, 1), (10, 2), (3, 1)],
                     sends_left = None\<rparr>"
       and n = 1 and st = init_stats and st' = init_stats and e = StructError
       and c = "fresh_world [(5, 0), (4, 1), (10, 2), (8, 3), (3, 1)]
                  [Data (request_bytes 2), Data hit_packet, Data (take 9 hit_packet),
                   Data stand_packet]"
       and req = "request_bytes 2" and rounds = 2 and name = "ascii_bytes TEAM_NAME"]
    raised_read_aborts_session
    [where p = 12 and w = "fresh_world [] [RecvRaises]" and evs = "[]"]
    raised_read_aborts_session
    [where p = 12 and w = "fresh_world [] [Data []]" and evs = "[]"]
  by (simp add: handle_client_def request_bytes_parsed fits_B_def round_eval decision_eval
        card_packet_def truncated_hit numeral_2_eq_2 is_hit_def)

end
